theory Spec2Isabelle
  imports Complex_Main "HOL-Library.Sublist"
begin

section \<open>Python strings\<close>

text \<open>
  Python \<open>str\<close> and \<open>bytes\<close> values are modelled as \<^typ>\<open>string\<close>. The case
  conversions and \<open>strip\<close> below are the ASCII behaviour of \<open>str.upper\<close>,
  \<open>str.lower\<close> and \<open>str.strip\<close>; the scanner's \<open>KEYMAP\<close> produces ASCII text only.
\<close>

definition upper_char :: "char \<Rightarrow> char" where
  "upper_char c =
     (case map_of (zip ''abcdefghijklmnopqrstuvwxyz'' ''ABCDEFGHIJKLMNOPQRSTUVWXYZ'') c of
        Some u \<Rightarrow> u | None \<Rightarrow> c)"

definition lower_char :: "char \<Rightarrow> char" where
  "lower_char c =
     (case map_of (zip ''ABCDEFGHIJKLMNOPQRSTUVWXYZ'' ''abcdefghijklmnopqrstuvwxyz'') c of
        Some l \<Rightarrow> l | None \<Rightarrow> c)"

definition upper :: "string \<Rightarrow> string" where
  "upper s = map upper_char s"

definition lower :: "string \<Rightarrow> string" where
  "lower s = map lower_char s"

definition startswith :: "string \<Rightarrow> string \<Rightarrow> bool" where
  "startswith s p = prefix p s"

text \<open>\<open>sub in s\<close>: \<open>sub\<close> occurs in \<open>s\<close> as a contiguous substring.\<close>

fun contains :: "string \<Rightarrow> string \<Rightarrow> bool" where
  "contains [] sub = (sub = [])"
| "contains (c # cs) sub = (prefix sub (c # cs) \<or> contains cs sub)"

text \<open>ASCII white space as \<open>str.isspace\<close> sees it: TAB, LF, VT, FF, CR, FS, GS, RS, US, SPACE.\<close>

definition isspace :: "char \<Rightarrow> bool" where
  "isspace c = (c \<in> set [CHR 0x09, CHR 0x0A, CHR 0x0B, CHR 0x0C, CHR 0x0D,
                          CHR 0x1C, CHR 0x1D, CHR 0x1E, CHR 0x1F, CHR 0x20])"

definition strip :: "string \<Rightarrow> string" where
  "strip s = rev (dropWhile isspace (rev (dropWhile isspace s)))"

text \<open>\<open>str(i)\<close> for an \<open>int\<close>: decimal digits, with a leading minus sign.\<close>

fun digits :: "nat \<Rightarrow> string" where
  "digits n = (if n < 10 then [''0123456789'' ! n]
               else digits (n div 10) @ [''0123456789'' ! (n mod 10)])"

definition str_int :: "int \<Rightarrow> string" where
  "str_int i = (if i < 0 then CHR ''-'' # digits (nat (- i)) else digits (nat i))"


section \<open>Configuration (config.py)\<close>

definition VIDEO_EXTENSIONS :: "string set" where
  "VIDEO_EXTENSIONS = set [''.mp4'', ''.mkv'', ''.avi'', ''.webm'', ''.mov'', ''.m4v'', ''.ts'', ''.flv'']"

definition COMMAND_PREFIX :: string where
  "COMMAND_PREFIX = ''CMD:''"

definition COMMANDS :: "string set" where
  "COMMANDS = set [''PAUSE'', ''STOP'', ''VOLUP'', ''VOLDOWN'', ''MUTE'', ''FWD'', ''RWD'', ''EXIT'']"

definition SEEK_STEP :: int where
  "SEEK_STEP = 10"

definition SCAN_DEBOUNCE_SECONDS :: real where
  "SCAN_DEBOUNCE_SECONDS = 2.0"

definition VOLUME_STEP :: int where
  "VOLUME_STEP = 5"


section \<open>Exceptions, log records and the trace of effects\<close>

datatype exn =
    ConnectionRefusedError
  | FileNotFoundError
  | TimeoutError
  | OSError
  | UnicodeDecodeError
  | JSONDecodeError
  | AttributeError

datatype level = DEBUG | INFO | WARNING | ERROR

datatype message =
    Debounced_duplicate_scan string
  | Rejected_suspicious_scan_input string
  | Unknown_command string
  | Executing_command string
  | No_video_found_for string
  | Playing string
  | Showing_splash_screen
  | EXIT_command_received
  | Mpv_socket_not_available
  | Mpv_IPC_error
  | Mpv_exited
  | Exit_key_pressed

text \<open>
  What a function does to the world, in order: a log record, a call of the control
  protocol client (the \<open>command\<close> list handed to \<open>_send\<close>), or a call of
  \<open>splash.generate\<close>.
\<close>

datatype event =
    Log level message
  | IPC "string list"
  | SplashGenerate

text \<open>
  How a call ends: it returns a value, it raises, or it never returns.
\<close>

datatype 'a outcome = Returned 'a | Raised exn | Hung

text \<open>
  A computation is its outcome with the effects it had. \<open>and_then c f\<close> runs \<open>c\<close> and, if it
  returned, \<open>f\<close> on its value; an exception or a hang of \<open>c\<close> ends the whole, with the
  effects \<open>c\<close> had until then.
\<close>

definition returning :: "'a \<Rightarrow> 'a outcome \<times> event list" where
  "returning v = (Returned v, [])"

definition emit :: "event list \<Rightarrow> unit outcome \<times> event list" where
  "emit tr = (Returned (), tr)"

definition and_then :: "'a outcome \<times> event list \<Rightarrow> ('a \<Rightarrow> 'b outcome \<times> event list) \<Rightarrow> 'b outcome \<times> event list" where
  "and_then c f =
     (case fst c of
        Returned v \<Rightarrow> (fst (f v), snd c @ snd (f v))
      | Raised x \<Rightarrow> (Raised x, snd c)
      | Hung \<Rightarrow> (Hung, snd c))"

text \<open>A call used as a statement: its value is dropped.\<close>

definition discard :: "'a outcome \<times> event list \<Rightarrow> unit outcome \<times> event list" where
  "discard c = and_then c (\<lambda>_. returning ())"

text \<open>What a trace holds besides log records: the protocol calls and splash generations.\<close>

definition actions :: "event list \<Rightarrow> event list" where
  "actions tr = filter (\<lambda>ev. case ev of Log _ _ \<Rightarrow> False | _ \<Rightarrow> True) tr"

definition returns :: "'a outcome \<times> event list \<Rightarrow> bool" where
  "returns c = (case fst c of Returned _ \<Rightarrow> True | _ \<Rightarrow> False)"


section \<open>The control protocol client (mpv_control.py)\<close>

text \<open>
  A value returned by \<open>json.loads\<close>. Python's \<open>None\<close> is \<open>JNull\<close>, so the \<open>None\<close> that
  \<open>_send\<close> returns on failure and a parsed \<open>null\<close> are the same value, as in Python.
  A \<open>dict\<close> is an association list read with \<^const>\<open>map_of\<close>.
\<close>

datatype json =
    JNull
  | JBool bool
  | JNum real
  | JStr string
  | JArr "json list"
  | JObj "(string \<times> json) list"

text \<open>
  The two library functions \<open>_send\<close> applies to the received bytes are parameters:
  \<open>bytes.decode\<close> and \<open>json.loads\<close>, each returning \<open>None\<close> where Python raises.
\<close>

record pylib =
  decode :: "string \<Rightarrow> string option"
  loads :: "string \<Rightarrow> json option"

text \<open>
  What the far end does on one connection: whether \<open>connect\<close> and \<open>sendall\<close> raise, and
  what the \<open>i\<close>-th call of \<open>recv\<close> gives: an exception (a timeout after two seconds, a
  reset), or bytes, the empty bytes meaning that the far end has closed.
\<close>

record conn =
  connect_raises :: "exn option"
  sendall_raises :: "exn option"
  recvs :: "nat \<Rightarrow> exn + string"

text \<open>
  The receive loop of \<open>_send\<close>:
  \<^verbatim>\<open>while b"\n" not in data: chunk = sock.recv(4096); if not chunk: break; data += chunk\<close>.
  A far end that keeps sending bytes without a newline keeps it running, so the loop is a
  partial function: \<open>None\<close> is "never returns".
\<close>

partial_function (option) recv_loop :: "(nat \<Rightarrow> exn + string) \<Rightarrow> nat \<Rightarrow> string \<Rightarrow> (exn + string) option" where
  "recv_loop rs i data =
     (if CHR 0x0A \<in> set data then Some (Inr data)
      else (case rs i of
              Inl e \<Rightarrow> Some (Inl e)
            | Inr chunk \<Rightarrow>
                if chunk = [] then Some (Inr data)
                else recv_loop rs (Suc i) (data @ chunk)))"

text \<open>
  The far end's side of the loop, for stating what the loop returns: the bytes of the
  \<open>n\<close> chunks from the \<open>i\<close>-th \<open>recv\<close> on; whether, with \<open>d\<close> already received before the
  \<open>i\<close>-th \<open>recv\<close>, the loop goes round once more after \<open>n\<close> further chunks (no newline yet,
  and the next \<open>recv\<close> brings bytes); and what the loop returns if it stops there.
\<close>

definition chunk_of :: "exn + string \<Rightarrow> string" where
  "chunk_of r = (case r of Inr chunk \<Rightarrow> chunk | Inl _ \<Rightarrow> [])"

definition received :: "(nat \<Rightarrow> exn + string) \<Rightarrow> nat \<Rightarrow> nat \<Rightarrow> string" where
  "received rs i n = concat (map (\<lambda>k. chunk_of (rs k)) [i..<i + n])"

definition continues :: "(nat \<Rightarrow> exn + string) \<Rightarrow> nat \<Rightarrow> string \<Rightarrow> nat \<Rightarrow> bool" where
  "continues rs i d n =
     (CHR 0x0A \<notin> set (d @ received rs i n)
      \<and> (case rs (i + n) of Inr chunk \<Rightarrow> chunk \<noteq> [] | Inl _ \<Rightarrow> False))"

definition stop_result :: "(nat \<Rightarrow> exn + string) \<Rightarrow> nat \<Rightarrow> string \<Rightarrow> nat \<Rightarrow> exn + string" where
  "stop_result rs i d n =
     (if CHR 0x0A \<in> set (d @ received rs i n) then Inr (d @ received rs i n)
      else (case rs (i + n) of Inl x \<Rightarrow> Inl x | Inr _ \<Rightarrow> Inr (d @ received rs i n)))"

text \<open>The two \<open>except\<close> clauses of \<open>_send\<close>: both log, and \<open>_send\<close> then returns \<open>None\<close>.\<close>

definition send_except :: "exn \<Rightarrow> json outcome \<times> event list" where
  "send_except e =
     (if e = ConnectionRefusedError \<or> e = FileNotFoundError
      then (Returned JNull, [Log WARNING Mpv_socket_not_available])
      else (Returned JNull, [Log ERROR Mpv_IPC_error]))"

definition first_line :: "string \<Rightarrow> string" where
  "first_line s = takeWhile (\<lambda>c. c \<noteq> CHR 0x0A) s"

definition send_body :: "pylib \<Rightarrow> conn \<Rightarrow> json outcome \<times> event list" where
  "send_body lib far =
     (case connect_raises far of
        Some e \<Rightarrow> send_except e
      | None \<Rightarrow>
         (case sendall_raises far of
            Some e \<Rightarrow> send_except e
          | None \<Rightarrow>
             (case recv_loop (recvs far) 0 [] of
                None \<Rightarrow> (Hung, [])
              | Some (Inl e) \<Rightarrow> send_except e
              | Some (Inr data) \<Rightarrow>
                  if data \<noteq> [] then
                    (case decode lib data of
                       None \<Rightarrow> send_except UnicodeDecodeError
                     | Some s \<Rightarrow>
                        (case loads lib (first_line s) of
                           None \<Rightarrow> send_except JSONDecodeError
                         | Some j \<Rightarrow> (Returned j, [])))
                  else (Returned JNull, []))))"

definition send :: "pylib \<Rightarrow> conn \<Rightarrow> string list \<Rightarrow> json outcome \<times> event list" where
  "send lib far command = and_then (emit [IPC command]) (\<lambda>_. send_body lib far)"

text \<open>
  \<^verbatim>\<open>resp is not None and resp.get("error") == "success"\<close>: \<open>False\<close> on \<open>None\<close>, the
  comparison on a \<open>dict\<close>, and \<open>AttributeError\<close> on any other value, which has no \<open>get\<close>.
\<close>

definition is_success :: "json \<Rightarrow> bool outcome" where
  "is_success resp =
     (case resp of
        JNull \<Rightarrow> Returned False
      | JObj kvs \<Rightarrow> Returned (map_of kvs ''error'' = Some (JStr ''success''))
      | _ \<Rightarrow> Raised AttributeError)"

definition operation :: "pylib \<Rightarrow> conn \<Rightarrow> string list \<Rightarrow> bool outcome \<times> event list" where
  "operation lib far command =
     and_then (send lib far command) (\<lambda>resp. (is_success resp, []))"

definition load_file :: "pylib \<Rightarrow> conn \<Rightarrow> string \<Rightarrow> bool outcome \<times> event list" where
  "load_file lib far path = operation lib far [''loadfile'', path]"

definition stop :: "pylib \<Rightarrow> conn \<Rightarrow> bool outcome \<times> event list" where
  "stop lib far = operation lib far [''stop'']"

definition pause_toggle :: "pylib \<Rightarrow> conn \<Rightarrow> bool outcome \<times> event list" where
  "pause_toggle lib far = operation lib far [''cycle'', ''pause'']"

definition volume_up :: "pylib \<Rightarrow> conn \<Rightarrow> int \<Rightarrow> bool outcome \<times> event list" where
  "volume_up lib far step = operation lib far [''add'', ''volume'', str_int step]"

definition volume_down :: "pylib \<Rightarrow> conn \<Rightarrow> int \<Rightarrow> bool outcome \<times> event list" where
  "volume_down lib far step = operation lib far [''add'', ''volume'', str_int (- step)]"

definition mute_toggle :: "pylib \<Rightarrow> conn \<Rightarrow> bool outcome \<times> event list" where
  "mute_toggle lib far = operation lib far [''cycle'', ''mute'']"

definition seek :: "pylib \<Rightarrow> conn \<Rightarrow> int \<Rightarrow> bool outcome \<times> event list" where
  "seek lib far seconds = operation lib far [''seek'', str_int seconds, ''relative'']"

text \<open>
  Truth value of a Python object, for \<^verbatim>\<open>if resp and ...\<close> in \<open>get_property\<close>.
\<close>

definition truthy :: "json \<Rightarrow> bool" where
  "truthy j =
     (case j of
        JNull \<Rightarrow> False
      | JBool b \<Rightarrow> b
      | JNum x \<Rightarrow> x \<noteq> 0
      | JStr s \<Rightarrow> s \<noteq> []
      | JArr xs \<Rightarrow> xs \<noteq> []
      | JObj kvs \<Rightarrow> kvs \<noteq> [])"

text \<open>\<open>dict.get(key)\<close>: the value, or \<open>None\<close>.\<close>

definition dict_get :: "(string \<times> json) list \<Rightarrow> string \<Rightarrow> json" where
  "dict_get kvs k = (case map_of kvs k of Some v \<Rightarrow> v | None \<Rightarrow> JNull)"

definition get_property_result :: "json \<Rightarrow> json outcome" where
  "get_property_result resp =
     (if truthy resp then
        (case resp of
           JObj kvs \<Rightarrow>
             if map_of kvs ''error'' = Some (JStr ''success'')
             then Returned (dict_get kvs ''data'') else Returned JNull
         | _ \<Rightarrow> Raised AttributeError)
      else Returned JNull)"

definition get_property :: "pylib \<Rightarrow> conn \<Rightarrow> string \<Rightarrow> json outcome \<times> event list" where
  "get_property lib far name =
     and_then (send lib far [''get_property'', name]) (\<lambda>resp. (get_property_result resp, []))"

text \<open>\<^verbatim>\<open>val = get_property("idle-active"); return val is True\<close>\<close>

definition is_idle :: "pylib \<Rightarrow> conn \<Rightarrow> bool outcome \<times> event list" where
  "is_idle lib far =
     and_then (get_property lib far ''idle-active'') (\<lambda>val. returning (val = JBool True))"


section \<open>The media directory (pathlib)\<close>

text \<open>
  \<open>str.rfind\<close> of one character: the index of its last occurrence, or \<open>-1\<close>.
\<close>

definition rfind :: "string \<Rightarrow> char \<Rightarrow> int" where
  "rfind s c =
     (if c \<in> set s then int (length s) - 1 - int (length (takeWhile (\<lambda>x. x \<noteq> c) (rev s)))
      else - 1)"

text \<open>
  \<open>PurePath.suffix\<close> and \<open>PurePath.stem\<close> of a file name:
  \<^verbatim>\<open>i = name.rfind('.'); if 0 < i < len(name) - 1: name[i:] (name[:i]) else '' (name)\<close>.
\<close>

definition path_suffix :: "string \<Rightarrow> string" where
  "path_suffix name =
     (let i = rfind name (CHR ''.'') in
      if 0 < i \<and> i < int (length name) - 1 then drop (nat i) name else [])"

definition path_stem :: "string \<Rightarrow> string" where
  "path_stem name =
     (let i = rfind name (CHR ''.'') in
      if 0 < i \<and> i < int (length name) - 1 then take (nat i) name else name)"

text \<open>
  One entry of \<open>MEDIA_DIR.iterdir()\<close>: its final path component and what \<open>is_file()\<close>
  says of it. The directory is the list of its entries in the order \<open>iterdir\<close> yields
  them; \<open>run\<close> creates the directory before anything is scanned.
\<close>

record entry =
  is_file :: bool
  name :: string

definition video_match :: "string \<Rightarrow> entry \<Rightarrow> bool" where
  "video_match stem_lower f =
     (is_file f \<and> lower (path_suffix (name f)) \<in> VIDEO_EXTENSIONS
      \<and> lower (path_stem (name f)) = stem_lower)"

definition find_video :: "entry list \<Rightarrow> string \<Rightarrow> entry option" where
  "find_video dir stem = (let stem_lower = lower stem in find (video_match stem_lower) dir)"


section \<open>The scan router (player.py)\<close>

text \<open>
  The surroundings of the player: the two library functions of the protocol client,
  what the media player's socket does on the connection opened for a given command, the
  media directory and its path, and the path \<open>splash.generate\<close> writes and returns.
\<close>

record env =
  lib :: pylib
  mpv :: "string list \<Rightarrow> conn"
  MEDIA_DIR :: string
  media :: "entry list"
  SPLASH_IMAGE :: string

text \<open>The module's global variables.\<close>

record globals =
  last_scan_text :: string
  last_scan_time :: real
  shutting_down :: bool

definition initial :: globals where
  "initial = \<lparr>last_scan_text = [], last_scan_time = 0, shutting_down = False\<rparr>"

text \<open>What a run of a function leaves: the globals, the effects in order, and how it ended.\<close>

record result =
  state :: globals
  trace :: "event list"
  status :: "unit outcome"

text \<open>\<open>splash.generate()\<close> writes the image and returns its path.\<close>

definition SplashGenerate_returns :: "string \<Rightarrow> string outcome \<times> event list" where
  "SplashGenerate_returns path = (Returned path, [SplashGenerate])"

text \<open>\<open>str(video)\<close> for an entry of the media directory.\<close>

definition path_str :: "env \<Rightarrow> entry \<Rightarrow> string" where
  "path_str e f = MEDIA_DIR e @ ''/'' @ name f"

definition show_splash :: "env \<Rightarrow> unit outcome \<times> event list" where
  "show_splash e =
     and_then (SplashGenerate_returns (SPLASH_IMAGE e)) (\<lambda>path.
     and_then (load_file (lib e) (mpv e [''loadfile'', path]) path) (\<lambda>_.
     emit [Log INFO Showing_splash_screen]))"

definition finish :: "globals \<Rightarrow> unit outcome \<times> event list \<Rightarrow> result" where
  "finish st c = \<lparr>state = st, trace = snd c, status = fst c\<rparr>"

definition execute_command :: "env \<Rightarrow> string \<Rightarrow> globals \<Rightarrow> result" where
  "execute_command e cmd st =
     (if cmd = ''PAUSE'' then
        finish st (discard (pause_toggle (lib e) (mpv e [''cycle'', ''pause''])))
      else if cmd = ''STOP'' then
        finish st (and_then (stop (lib e) (mpv e [''stop''])) (\<lambda>_. show_splash e))
      else if cmd = ''VOLUP'' then
        finish st (discard (volume_up (lib e)
          (mpv e [''add'', ''volume'', str_int VOLUME_STEP]) VOLUME_STEP))
      else if cmd = ''VOLDOWN'' then
        finish st (discard (volume_down (lib e)
          (mpv e [''add'', ''volume'', str_int (- VOLUME_STEP)]) VOLUME_STEP))
      else if cmd = ''MUTE'' then
        finish st (discard (mute_toggle (lib e) (mpv e [''cycle'', ''mute''])))
      else if cmd = ''FWD'' then
        finish st (discard (seek (lib e)
          (mpv e [''seek'', str_int SEEK_STEP, ''relative'']) SEEK_STEP))
      else if cmd = ''RWD'' then
        finish st (discard (seek (lib e)
          (mpv e [''seek'', str_int (- SEEK_STEP), ''relative'']) (- SEEK_STEP)))
      else if cmd = ''EXIT'' then
        \<lparr>state = st\<lparr>shutting_down := True\<rparr>,
         trace = [Log INFO EXIT_command_received], status = Returned ()\<rparr>
      else \<lparr>state = st, trace = [], status = Returned ()\<rparr>)"

text \<open>
  The debounce test of \<open>handle_scan\<close>, with \<open>now\<close> the value \<open>time.monotonic()\<close> returned.
  Times are real numbers: the rounding of the float subtraction is not modelled.
\<close>

definition debounced :: "globals \<Rightarrow> real \<Rightarrow> string \<Rightarrow> bool" where
  "debounced st now text =
     (text = last_scan_text st \<and> now - last_scan_time st < SCAN_DEBOUNCE_SECONDS)"

definition suspicious :: "string \<Rightarrow> bool" where
  "suspicious text = (contains text ''/'' \<or> contains text ''..'')"

definition prepend :: "event list \<Rightarrow> result \<Rightarrow> result" where
  "prepend tr r = r\<lparr>trace := tr @ trace r\<rparr>"

definition handle_scan :: "env \<Rightarrow> real \<Rightarrow> string \<Rightarrow> globals \<Rightarrow> result" where
  "handle_scan e now text st =
     (if debounced st now text then
        \<lparr>state = st, trace = [Log DEBUG (Debounced_duplicate_scan text)], status = Returned ()\<rparr>
      else
        let st = st\<lparr>last_scan_text := text, last_scan_time := now\<rparr> in
        if suspicious text then
          \<lparr>state = st, trace = [Log WARNING (Rejected_suspicious_scan_input text)],
           status = Returned ()\<rparr>
        else
          let text_upper = upper text in
          if startswith text_upper COMMAND_PREFIX then
            let cmd = drop (length COMMAND_PREFIX) text_upper in
            if cmd \<notin> COMMANDS then
              \<lparr>state = st, trace = [Log WARNING (Unknown_command cmd)], status = Returned ()\<rparr>
            else prepend [Log INFO (Executing_command cmd)] (execute_command e cmd st)
          else
            (case find_video (media e) text of
               None \<Rightarrow>
                 \<lparr>state = st, trace = [Log WARNING (No_video_found_for text)],
                  status = Returned ()\<rparr>
             | Some video \<Rightarrow>
                 finish st
                   (and_then (emit [Log INFO (Playing (path_str e video))]) (\<lambda>_.
                    discard (load_file (lib e)
                      (mpv e [''loadfile'', path_str e video]) (path_str e video))))))"


section \<open>The watchers (player.py)\<close>

text \<open>
  The local variables of \<open>idle_watcher\<close>, and one pass through the body of its loop, with
  \<open>current_minute\<close> the value of \<open>datetime.now().minute\<close>.
\<close>

record idle_state =
  splash_showing :: bool
  last_minute :: int

definition idle_initial :: idle_state where
  "idle_initial = \<lparr>splash_showing = False, last_minute = - 1\<rparr>"

definition idle_watcher_iter :: "env \<Rightarrow> int \<Rightarrow> idle_state \<Rightarrow> idle_state \<times> event list \<times> unit outcome" where
  "idle_watcher_iter e current_minute w =
     (let c = is_idle (lib e) (mpv e [''get_property'', ''idle-active'']) in
      case fst c of
        Returned idle \<Rightarrow>
          if idle then
            if \<not> splash_showing w \<or> current_minute \<noteq> last_minute w then
              (let s = show_splash e in
               case fst s of
                 Returned _ \<Rightarrow>
                   (\<lparr>splash_showing = True, last_minute = current_minute\<rparr>,
                    snd c @ snd s, Returned ())
               | Raised x \<Rightarrow> (w, snd c @ snd s, Raised x)
               | Hung \<Rightarrow> (w, snd c @ snd s, Hung))
            else (w, snd c, Returned ())
          else (\<lparr>splash_showing = False, last_minute = - 1\<rparr>, snd c, Returned ())
      | Raised x \<Rightarrow> (w, snd c, Raised x)
      | Hung \<Rightarrow> (w, snd c, Hung))"

text \<open>
  The loop of \<open>idle_watcher\<close> over the polls it makes while \<open>_shutting_down\<close> is false:
  each poll has its own surroundings and clock reading; a pass that raises or hangs ends
  the watcher.
\<close>

fun idle_watcher :: "(env \<times> int) list \<Rightarrow> idle_state \<Rightarrow> idle_state \<times> event list \<times> unit outcome" where
  "idle_watcher [] w = (w, [], Returned ())"
| "idle_watcher ((e, m) # polls) w =
     (case idle_watcher_iter e m w of
        (w', tr, Returned _) \<Rightarrow>
          (case idle_watcher polls w' of (w'', tr', r) \<Rightarrow> (w'', tr @ tr', r))
      | (w', tr, r) \<Rightarrow> (w', tr, r))"

text \<open>
  One pass of \<open>_mpv_watcher\<close>, with \<open>poll\<close> the value of \<open>mpv_proc.poll()\<close>; the boolean
  says whether the watcher returned.
\<close>

definition mpv_watcher_iter :: "int option \<Rightarrow> globals \<Rightarrow> globals \<times> event list \<times> bool" where
  "mpv_watcher_iter poll st =
     (if poll \<noteq> None then (st\<lparr>shutting_down := True\<rparr>, [Log INFO Mpv_exited], True)
      else (st, [], False))"

definition signal_shutdown :: "globals \<Rightarrow> globals" where
  "signal_shutdown st = st\<lparr>shutting_down := True\<rparr>"


section \<open>Input events (evdev)\<close>

text \<open>
  An input event as \<open>categorize\<close> presents it: the event type, the key code and the key
  state (\<open>value\<close> 0, 1, 2). The codes are those of \<open>linux/input-event-codes.h\<close>, which
  \<open>evdev.ecodes\<close> exports.
\<close>

datatype keystate = key_up | key_down | key_hold

record input_event =
  ev_type :: nat
  scancode :: nat
  keystate :: keystate

definition EV_KEY :: nat where "EV_KEY = 1"
definition KEY_ESC :: nat where "KEY_ESC = 1"
definition KEY_Q :: nat where "KEY_Q = 16"
definition KEY_ENTER :: nat where "KEY_ENTER = 28"
definition KEY_LEFTSHIFT :: nat where "KEY_LEFTSHIFT = 42"
definition KEY_RIGHTSHIFT :: nat where "KEY_RIGHTSHIFT = 54"

text \<open>The body of the loop of \<open>_watch_one\<close>; the boolean says whether it returned.\<close>

definition watch_one :: "nat set \<Rightarrow> input_event \<Rightarrow> globals \<Rightarrow> globals \<times> event list \<times> bool" where
  "watch_one exit_keys ev st =
     (if shutting_down st then (st, [], True)
      else if ev_type ev = EV_KEY \<and> keystate ev = key_down \<and> scancode ev \<in> exit_keys
      then (st\<lparr>shutting_down := True\<rparr>, [Log INFO Exit_key_pressed], True)
      else (st, [], False))"

definition EXIT_KEYS :: "nat set" where
  "EXIT_KEYS = {KEY_Q, KEY_ESC}"

text \<open>
  The steps that can write the globals: a scan routed by \<open>handle_scan\<close>, a pass of the
  liveness monitor, an event seen by the exit-key monitor, the signal handler. The idle
  watcher and \<open>shutdown_watcher\<close> only read them. The tasks run on one event loop and none
  of these steps contains an \<open>await\<close>, so each is atomic.
\<close>

inductive sys_step :: "globals \<Rightarrow> globals \<Rightarrow> bool" where
  scan: "sys_step s (state (handle_scan e now text s))"
| liveness: "sys_step s (fst (mpv_watcher_iter poll s))"
| exit_key: "sys_step s (fst (watch_one EXIT_KEYS ev s))"
| signal: "sys_step s (signal_shutdown s)"
| reader: "sys_step s s"


text \<open>How often a trace generates the splash.\<close>

definition splash_count :: "event list \<Rightarrow> nat" where
  "splash_count tr = length (filter (\<lambda>ev. ev = SplashGenerate) tr)"

text \<open>A poll of the idle watcher at minute \<open>m\<close> at which the player reports idle.\<close>

definition idle_at :: "int \<Rightarrow> env \<times> int \<Rightarrow> bool" where
  "idle_at m p =
     (snd p = m
      \<and> fst (is_idle (lib (fst p)) (mpv (fst p) [''get_property'', ''idle-active''])) = Returned True)"


section \<open>The keycode decoder (scanner.py)\<close>

text \<open>
  \<open>KEYMAP\<close>: key code to (normal, shifted) character, in the order of the source:
  \<open>KEY_1\<close> .. \<open>KEY_0\<close>, \<open>KEY_MINUS\<close>, \<open>KEY_EQUAL\<close>, \<open>KEY_Q\<close> .. \<open>KEY_P\<close>, \<open>KEY_LEFTBRACE\<close>,
  \<open>KEY_RIGHTBRACE\<close>, \<open>KEY_A\<close> .. \<open>KEY_L\<close>, \<open>KEY_SEMICOLON\<close>, \<open>KEY_APOSTROPHE\<close>, \<open>KEY_GRAVE\<close>,
  \<open>KEY_BACKSLASH\<close>, \<open>KEY_Z\<close> .. \<open>KEY_M\<close>, \<open>KEY_COMMA\<close>, \<open>KEY_DOT\<close>, \<open>KEY_SLASH\<close>, \<open>KEY_SPACE\<close>.
\<close>

definition KEYMAP :: "(nat \<times> char \<times> char) list" where
  "KEYMAP =
    [(2, CHR ''1'', CHR ''!''), (3, CHR ''2'', CHR ''@''), (4, CHR ''3'', CHR ''#''),
     (5, CHR ''4'', CHR ''$''), (6, CHR ''5'', CHR ''%''), (7, CHR ''6'', CHR ''^''),
     (8, CHR ''7'', CHR ''&''), (9, CHR ''8'', CHR ''*''), (10, CHR ''9'', CHR ''(''),
     (11, CHR ''0'', CHR '')''), (12, CHR ''-'', CHR ''_''), (13, CHR ''='', CHR ''+''),
     (16, CHR ''q'', CHR ''Q''), (17, CHR ''w'', CHR ''W''), (18, CHR ''e'', CHR ''E''),
     (19, CHR ''r'', CHR ''R''), (20, CHR ''t'', CHR ''T''), (21, CHR ''y'', CHR ''Y''),
     (22, CHR ''u'', CHR ''U''), (23, CHR ''i'', CHR ''I''), (24, CHR ''o'', CHR ''O''),
     (25, CHR ''p'', CHR ''P''), (26, CHR ''['', CHR ''{''), (27, CHR '']'', CHR ''}''),
     (30, CHR ''a'', CHR ''A''), (31, CHR ''s'', CHR ''S''), (32, CHR ''d'', CHR ''D''),
     (33, CHR ''f'', CHR ''F''), (34, CHR ''g'', CHR ''G''), (35, CHR ''h'', CHR ''H''),
     (36, CHR ''j'', CHR ''J''), (37, CHR ''k'', CHR ''K''), (38, CHR ''l'', CHR ''L''),
     (39, CHR '';'', CHR '':''), (40, CHR 0x27, CHR 0x22), (41, CHR 0x60, CHR ''~''),
     (43, CHR 0x5C, CHR ''|''), (44, CHR ''z'', CHR ''Z''), (45, CHR ''x'', CHR ''X''),
     (46, CHR ''c'', CHR ''C''), (47, CHR ''v'', CHR ''V''), (48, CHR ''b'', CHR ''B''),
     (49, CHR ''n'', CHR ''N''), (50, CHR ''m'', CHR ''M''), (51, CHR '','', CHR ''<''),
     (52, CHR ''.'', CHR ''>''), (53, CHR ''/'', CHR ''?''), (57, CHR '' '', CHR '' '')]"

text \<open>
  The body of the loop of \<open>_read_loop\<close> on one event, with the local variables \<open>buffer\<close>
  and \<open>shift\<close>; the result carries the text handed to the callback, if any (the info log
  record written just before the callback is not kept).
\<close>

definition read_step :: "input_event \<Rightarrow> string \<times> bool \<Rightarrow> (string \<times> bool) \<times> string option" where
  "read_step ev st =
     (let buffer = fst st; shift = snd st in
      if ev_type ev \<noteq> EV_KEY then ((buffer, shift), None)
      else if scancode ev \<in> {KEY_LEFTSHIFT, KEY_RIGHTSHIFT} then
        ((buffer, keystate ev \<in> {key_down, key_hold}), None)
      else if keystate ev \<noteq> key_down then ((buffer, shift), None)
      else if scancode ev = KEY_ENTER then
        (let text = strip buffer in (([], shift), if text \<noteq> [] then Some text else None))
      else
        (case map_of KEYMAP (scancode ev) of
           Some mapping \<Rightarrow> ((buffer @ [if shift then snd mapping else fst mapping], shift), None)
         | None \<Rightarrow> ((buffer, shift), None)))"

text \<open>
  \<open>_read_loop\<close> over the events the device delivers, from given values of the local
  variables: the final values and the texts handed to the callback, in order.
\<close>

fun read_loop :: "input_event list \<Rightarrow> string \<times> bool \<Rightarrow> (string \<times> bool) \<times> string list" where
  "read_loop [] st = (st, [])"
| "read_loop (ev # evs) st =
     (let r = read_step ev st; rest = read_loop evs (fst r) in
      (fst rest, (case snd r of Some text \<Rightarrow> [text] | None \<Rightarrow> []) @ snd rest))"

text \<open>
  The decoded line as the specification words it: an event is a shift event or an Enter
  key-down; the tracked shift state after some events is that of the last shift event
  (down or hold); a key-down of a key of the layout table, other than a shift key, gives
  the character chosen by the shift state at that event; the line is the concatenation of
  these characters over the events.
\<close>

definition is_shift_key :: "input_event \<Rightarrow> bool" where
  "is_shift_key ev =
     (ev_type ev = EV_KEY \<and> (scancode ev = KEY_LEFTSHIFT \<or> scancode ev = KEY_RIGHTSHIFT))"

definition enter_down :: "input_event \<Rightarrow> bool" where
  "enter_down ev = (ev_type ev = EV_KEY \<and> scancode ev = KEY_ENTER \<and> keystate ev = key_down)"

definition track_shift :: "bool \<Rightarrow> input_event list \<Rightarrow> bool" where
  "track_shift sh evs =
     foldl (\<lambda>s ev. if is_shift_key ev then keystate ev = key_down \<or> keystate ev = key_hold else s)
       sh evs"

definition key_char :: "bool \<Rightarrow> input_event \<Rightarrow> string" where
  "key_char sh ev =
     (if ev_type ev = EV_KEY \<and> \<not> is_shift_key ev \<and> keystate ev = key_down then
        (case map_of KEYMAP (scancode ev) of
           Some (normal, shifted) \<Rightarrow> [if sh then shifted else normal]
         | None \<Rightarrow> [])
      else [])"

definition line_text :: "bool \<Rightarrow> input_event list \<Rightarrow> string" where
  "line_text sh evs =
     concat (map (\<lambda>i. key_char (track_shift sh (take i evs)) (evs ! i)) [0..<length evs])"


section \<open>Example surroundings\<close>

text \<open>
  Concrete values for the examples below. \<open>reply_lib\<close> decodes ASCII bytes to themselves
  and reads the reply texts the examples use as \<open>json.loads\<close> does; \<open>refusing\<close> is a
  socket nobody listens on, \<open>replying\<close> a far end that answers with one line and keeps the
  connection open, \<open>unterminated\<close> one that sends its answer without a newline and closes.
\<close>

definition success_reply :: string where
  \<open>success_reply = ''{"error":"success"}''\<close>

definition idle_reply :: string where
  \<open>idle_reply = ''{"data":true,"error":"success"}''\<close>

definition busy_reply :: string where
  \<open>busy_reply = ''{"data":false,"error":"success"}''\<close>

definition array_reply :: string where
  "array_reply = ''[]''"

definition reply_lib :: pylib where
  "reply_lib =
     \<lparr>decode = Some,
      loads = (\<lambda>s.
        if s = success_reply then Some (JObj [(''error'', JStr ''success'')])
        else if s = idle_reply then
          Some (JObj [(''data'', JBool True), (''error'', JStr ''success'')])
        else if s = busy_reply then
          Some (JObj [(''data'', JBool False), (''error'', JStr ''success'')])
        else if s = array_reply then Some (JArr [])
        else None)\<rparr>"

definition replying :: "string \<Rightarrow> conn" where
  "replying reply =
     \<lparr>connect_raises = None, sendall_raises = None,
      recvs = (\<lambda>i. if i = 0 then Inr (reply @ [CHR 0x0A]) else Inl TimeoutError)\<rparr>"

definition unterminated :: "string \<Rightarrow> conn" where
  "unterminated reply =
     \<lparr>connect_raises = None, sendall_raises = None,
      recvs = (\<lambda>i. if i = 0 then Inr reply else Inr [])\<rparr>"

definition idle_player :: "string list \<Rightarrow> conn" where
  "idle_player c =
     (if c = [''get_property'', ''idle-active''] then replying idle_reply
      else replying success_reply)"

definition busy_player :: "string list \<Rightarrow> conn" where
  "busy_player c =
     (if c = [''get_property'', ''idle-active''] then replying busy_reply
      else replying success_reply)"

definition bambi :: entry where
  "bambi = \<lparr>is_file = True, name = ''Bambi.mp4''\<rparr>"

definition idle_env :: env where
  "idle_env =
     \<lparr>lib = reply_lib, mpv = idle_player, MEDIA_DIR = ''/srv/media'', media = [bambi],
      SPLASH_IMAGE = ''/srv/assets/splash.png''\<rparr>"

definition busy_env :: env where
  "busy_env =
     \<lparr>lib = reply_lib, mpv = busy_player, MEDIA_DIR = ''/srv/media'', media = [bambi],
      SPLASH_IMAGE = ''/srv/assets/splash.png''\<rparr>"

definition refusing :: conn where
  "refusing =
     \<lparr>connect_raises = Some ConnectionRefusedError, sendall_raises = None,
      recvs = (\<lambda>i. Inr [])\<rparr>"

definition example_env :: env where
  "example_env =
     \<lparr>lib = reply_lib, mpv = (\<lambda>c. refusing), MEDIA_DIR = ''/srv/media'', media = [],
      SPLASH_IMAGE = ''/srv/assets/splash.png''\<rparr>"

definition scanned_bambi_at_1 :: globals where
  "scanned_bambi_at_1 = state (handle_scan example_env 1 ''bambi'' initial)"

definition scanned_slash_at_1 :: globals where
  "scanned_slash_at_1 = state (handle_scan example_env 1 ''a/b'' initial)"


text \<open>
  A scan as the scanner types it: shift down, \<open>B\<close>, shift up, \<open>a\<close> (held a moment), a key
  that is not in the layout table, a trailing space.
\<close>

definition key :: "nat \<Rightarrow> keystate \<Rightarrow> input_event" where
  "key c k = \<lparr>ev_type = EV_KEY, scancode = c, keystate = k\<rparr>"

definition example_scan :: "input_event list" where
  "example_scan =
     [key KEY_LEFTSHIFT key_down, key 48 key_down, key 48 key_up, key KEY_LEFTSHIFT key_up,
      key 30 key_down, key 30 key_hold, key 100 key_down, key 30 key_up, key 57 key_down]"


section \<open>Basic facts\<close>

lemma result_finish [simp]:
  "state (finish st c) = st" "trace (finish st c) = snd c" "status (finish st c) = fst c"
  by (simp_all add: finish_def)

lemma result_prepend [simp]:
  "state (prepend tr r) = state r" "trace (prepend tr r) = tr @ trace r"
  "status (prepend tr r) = status r"
  by (simp_all add: prepend_def)

lemma state_execute_command:
  "state (execute_command e cmd st) = (if cmd = ''EXIT'' then st\<lparr>shutting_down := True\<rparr> else st)"
  by (simp add: execute_command_def)

lemma contains_iff: "contains s sub \<longleftrightarrow> (\<exists>pre post. s = pre @ sub @ post)"
proof (induction s)
  case Nil
  then show ?case by auto
next
  case (Cons c cs)
  show ?case
  proof
    assume "contains (c # cs) sub"
    then consider "prefix sub (c # cs)" | "contains cs sub" by auto
    then show "\<exists>pre post. c # cs = pre @ sub @ post"
    proof cases
      case 1
      then obtain post where "c # cs = sub @ post" by (auto simp: prefix_def)
      then have "c # cs = [] @ sub @ post" by simp
      then show ?thesis by blast
    next
      case 2
      with Cons.IH obtain pre post where "cs = pre @ sub @ post" by auto
      then have "c # cs = (c # pre) @ sub @ post" by simp
      then show ?thesis by blast
    qed
  next
    assume "\<exists>pre post. c # cs = pre @ sub @ post"
    then obtain pre post where eq: "c # cs = pre @ sub @ post" by auto
    show "contains (c # cs) sub"
    proof (cases pre)
      case Nil
      with eq have "prefix sub (c # cs)" by (simp add: prefix_def)
      then show ?thesis by simp
    next
      case (Cons p ps)
      with eq have "cs = ps @ sub @ post" by simp
      with Cons.IH have "contains cs sub" by blast
      then show ?thesis by simp
    qed
  qed
qed

lemma suspicious_iff:
  "suspicious text \<longleftrightarrow> (CHR ''/'' \<in> set text \<or> (\<exists>pre post. text = pre @ ''..'' @ post))"
proof -
  have "contains text ''/'' \<longleftrightarrow> CHR ''/'' \<in> set text"
    by (auto simp: contains_iff in_set_conv_decomp)
  then show ?thesis by (simp add: suspicious_def contains_iff)
qed



lemma actions_simps [simp]:
  "actions [] = []"
  "actions (IPC c # tr) = IPC c # actions tr"
  "actions (Log l m # tr) = actions tr"
  "actions (SplashGenerate # tr) = SplashGenerate # actions tr"
  "actions (tr @ tr') = actions tr @ actions tr'"
  by (simp_all add: actions_def)

lemma snd_and_then:
  "snd (and_then c f) = snd c @ (case fst c of Returned v \<Rightarrow> snd (f v) | _ \<Rightarrow> [])"
  by (simp add: and_then_def split: outcome.splits)

lemma fst_and_then:
  "fst (and_then c f) = (case fst c of Returned v \<Rightarrow> fst (f v) | Raised x \<Rightarrow> Raised x | Hung \<Rightarrow> Hung)"
  by (simp add: and_then_def split: outcome.splits)

lemma emit_simps [simp]: "fst (emit tr) = Returned ()" "snd (emit tr) = tr"
  "fst (returning v) = Returned v" "snd (returning v) = []"
  by (simp_all add: emit_def returning_def)

lemma send_body_logs:
  "snd (send_body l far) = [] \<or> snd (send_body l far) = [Log WARNING Mpv_socket_not_available]
   \<or> snd (send_body l far) = [Log ERROR Mpv_IPC_error]"
  by (auto simp: send_body_def send_except_def split: option.splits sum.splits)

lemma actions_send_body [simp]: "actions (snd (send_body l far)) = []"
  using send_body_logs [of l far] by auto

lemma debug_send_body [simp]: "Log DEBUG m \<notin> set (snd (send_body l far))"
  using send_body_logs [of l far] by auto

lemma snd_operation [simp]: "snd (operation l far c) = IPC c # snd (send_body l far)"
  by (simp add: operation_def send_def snd_and_then fst_and_then split: outcome.splits)

lemma snd_discard [simp]: "snd (discard c) = snd c"
  by (simp add: discard_def snd_and_then split: outcome.splits)

lemmas operations =
  load_file_def stop_def pause_toggle_def volume_up_def volume_down_def mute_toggle_def seek_def

lemma snd_show_splash:
  "snd (show_splash e) =
     SplashGenerate # IPC [''loadfile'', SPLASH_IMAGE e]
       # snd (send_body (lib e) (mpv e [''loadfile'', SPLASH_IMAGE e]))
       @ (case fst (show_splash e) of Returned _ \<Rightarrow> [Log INFO Showing_splash_screen] | _ \<Rightarrow> [])"
  by (simp add: show_splash_def SplashGenerate_returns_def snd_and_then fst_and_then load_file_def
        split: outcome.splits)

lemma debug_execute_command: "Log DEBUG m \<notin> set (trace (execute_command e cmd st))"
  by (simp add: execute_command_def operations snd_and_then snd_show_splash split: outcome.splits)


lemmas scan_eval =
  handle_scan_def debounced_def initial_def suspicious_def upper_def upper_char_def
  startswith_def COMMAND_PREFIX_def COMMANDS_def find_video_def example_env_def
  SCAN_DEBOUNCE_SECONDS_def

lemma scanned_bambi_at_1:
  "scanned_bambi_at_1 = \<lparr>last_scan_text = ''bambi'', last_scan_time = 1, shutting_down = False\<rparr>"
  by (simp add: scanned_bambi_at_1_def scan_eval)

lemma scanned_slash_at_1:
  "scanned_slash_at_1 = \<lparr>last_scan_text = ''a/b'', last_scan_time = 1, shutting_down = False\<rparr>"
  by (simp add: scanned_slash_at_1_def scan_eval)


subsection \<open>The examples evaluated\<close>

lemma recv_replying: "recv_loop (recvs (replying reply)) 0 [] = Some (Inr (reply @ [CHR 0x0A]))"
  by (subst recv_loop.simps, simp add: replying_def, subst recv_loop.simps, simp)

lemma recv_unterminated:
  "reply \<noteq> [] \<Longrightarrow> CHR 0x0A \<notin> set reply \<Longrightarrow>
   recv_loop (recvs (unterminated reply)) 0 [] = Some (Inr reply)"
  by (subst recv_loop.simps, simp add: unterminated_def, subst recv_loop.simps, simp)

lemma first_line_terminated: "CHR 0x0A \<notin> set s \<Longrightarrow> first_line (s @ CHR 0x0A # t) = s"
  by (auto simp add: first_line_def takeWhile_tail takeWhile_eq_all_conv)

lemma first_line_whole: "CHR 0x0A \<notin> set s \<Longrightarrow> first_line s = s"
  by (auto simp add: first_line_def takeWhile_eq_all_conv)

lemma replies_distinct:
  "CHR 0x0A \<notin> set success_reply" "CHR 0x0A \<notin> set idle_reply" "CHR 0x0A \<notin> set busy_reply"
  "success_reply \<noteq> []" "idle_reply \<noteq> success_reply" "busy_reply \<noteq> success_reply"
  "busy_reply \<noteq> idle_reply" "CHR 0x0A \<notin> set array_reply" "array_reply \<noteq> success_reply"
  "array_reply \<noteq> idle_reply" "array_reply \<noteq> busy_reply"
  by (simp_all add: success_reply_def idle_reply_def busy_reply_def array_reply_def)

lemma example_conn_fields [simp]:
  "connect_raises (replying r) = None" "sendall_raises (replying r) = None"
  "connect_raises (unterminated r) = None" "sendall_raises (unterminated r) = None"
  "connect_raises refusing = Some ConnectionRefusedError"
  by (simp_all add: replying_def unterminated_def refusing_def)

lemma send_body_replying:
  "send_body reply_lib (replying success_reply) = (Returned (JObj [(''error'', JStr ''success'')]), [])"
  "send_body reply_lib (replying idle_reply) =
     (Returned (JObj [(''data'', JBool True), (''error'', JStr ''success'')]), [])"
  "send_body reply_lib (replying busy_reply) =
     (Returned (JObj [(''data'', JBool False), (''error'', JStr ''success'')]), [])"
  "send_body reply_lib (replying array_reply) = (Returned (JArr []), [])"
  "send_body reply_lib (unterminated success_reply) =
     (Returned (JObj [(''error'', JStr ''success'')]), [])"
  "send_body reply_lib refusing = (Returned JNull, [Log WARNING Mpv_socket_not_available])"
  by (simp_all add: send_body_def recv_replying recv_unterminated replies_distinct
        first_line_terminated first_line_whole reply_lib_def send_except_def)

lemma operation_eval:
  "operation l far c = (case fst (send_body l far) of Returned resp \<Rightarrow> is_success resp
      | Raised x \<Rightarrow> Raised x | Hung \<Rightarrow> Hung, IPC c # snd (send_body l far))"
  by (simp add: operation_def send_def and_then_def emit_def split: outcome.splits)

lemma is_idle_eval:
  "is_idle l far = (case fst (send_body l far) of
        Returned resp \<Rightarrow> (case get_property_result resp of
            Returned val \<Rightarrow> Returned (val = JBool True) | Raised x \<Rightarrow> Raised x | Hung \<Rightarrow> Hung)
      | Raised x \<Rightarrow> Raised x | Hung \<Rightarrow> Hung,
     IPC [''get_property'', ''idle-active''] # snd (send_body l far))"
  by (simp add: is_idle_def get_property_def send_def and_then_def emit_def returning_def
        split: outcome.splits)

lemma is_idle_examples:
  "is_idle (lib idle_env) (mpv idle_env [''get_property'', ''idle-active'']) =
     (Returned True, [IPC [''get_property'', ''idle-active'']])"
  "is_idle (lib busy_env) (mpv busy_env [''get_property'', ''idle-active'']) =
     (Returned False, [IPC [''get_property'', ''idle-active'']])"
  by (simp_all add: is_idle_eval idle_env_def busy_env_def idle_player_def busy_player_def
        send_body_replying get_property_result_def truthy_def dict_get_def)

lemma show_splash_examples:
  "show_splash idle_env =
     (Returned (), [SplashGenerate, IPC [''loadfile'', ''/srv/assets/splash.png''],
                    Log INFO Showing_splash_screen])"
  by (simp add: show_splash_def SplashGenerate_returns_def and_then_def load_file_def
        operation_eval idle_env_def idle_player_def send_body_replying is_success_def emit_def)


section \<open>Debounce\<close>

text \<open>
  C2, as amended. A scan is debounced, that is discarded with the globals unchanged and
  nothing done but a debug log record, exactly when its text equals the last accepted
  text and less than the debounce window has passed since; it is accepted when the text
  differs or the elapsed time is at least the window, and then the stored text and time
  become those of this scan.
\<close>

theorem handle_scan_debounce:
  "(text = last_scan_text st \<and> now - last_scan_time st < SCAN_DEBOUNCE_SECONDS \<longrightarrow>
      handle_scan e now text st =
        \<lparr>state = st, trace = [Log DEBUG (Debounced_duplicate_scan text)], status = Returned ()\<rparr>)
   \<and> (text \<noteq> last_scan_text st \<or> SCAN_DEBOUNCE_SECONDS \<le> now - last_scan_time st \<longrightarrow>
      last_scan_text (state (handle_scan e now text st)) = text
      \<and> last_scan_time (state (handle_scan e now text st)) = now
      \<and> Log DEBUG (Debounced_duplicate_scan text) \<notin> set (trace (handle_scan e now text st)))"
  by (auto simp add: handle_scan_def debounced_def Let_def state_execute_command
        debug_execute_command load_file_def snd_and_then split: option.splits)

theorem handle_scan_debounce_witness:
  "(''bambi'' = last_scan_text scanned_bambi_at_1
      \<and> 2 - last_scan_time scanned_bambi_at_1 < SCAN_DEBOUNCE_SECONDS
      \<and> handle_scan example_env 2 ''bambi'' scanned_bambi_at_1 =
          \<lparr>state = scanned_bambi_at_1, trace = [Log DEBUG (Debounced_duplicate_scan ''bambi'')],
           status = Returned ()\<rparr>)
   \<and> (SCAN_DEBOUNCE_SECONDS \<le> 4 - last_scan_time scanned_bambi_at_1
      \<and> last_scan_text (state (handle_scan example_env 4 ''bambi'' scanned_bambi_at_1)) = ''bambi''
      \<and> last_scan_time (state (handle_scan example_env 4 ''bambi'' scanned_bambi_at_1)) = 4)"
  using handle_scan_debounce [of "''bambi''" scanned_bambi_at_1 2 example_env]
    handle_scan_debounce [of "''bambi''" scanned_bambi_at_1 4 example_env]
  by (simp add: scanned_bambi_at_1 SCAN_DEBOUNCE_SECONDS_def)

text \<open>
  C2 as stated fails at the boundary: a rescan of the same text exactly the debounce
  window after the last acceptance is accepted (the stored time becomes 3), although the
  text does not differ and the elapsed time does not exceed the window.
\<close>

theorem debounce_boundary_counterexample:
  "last_scan_time (state (handle_scan example_env 3 ''bambi'' scanned_bambi_at_1)) = 3
   \<and> trace (handle_scan example_env 3 ''bambi'' scanned_bambi_at_1)
       = [Log WARNING (No_video_found_for ''bambi'')]
   \<and> \<not> (''bambi'' \<noteq> last_scan_text scanned_bambi_at_1
          \<or> SCAN_DEBOUNCE_SECONDS < 3 - last_scan_time scanned_bambi_at_1)"
  by (simp add: scanned_bambi_at_1 scan_eval)

text \<open>
  C10. The stored text and time are set before the safety, command and media checks: for
  every scan that passes the debounce step they become that scan's, whatever happens to
  the scan afterwards, so that the same text scanned again within the debounce window is
  discarded with a debug log record only, also when the first scan was rejected.
\<close>

theorem debounce_state_set_before_checks:
  assumes "text \<noteq> last_scan_text st \<or> SCAN_DEBOUNCE_SECONDS \<le> now - last_scan_time st"
  shows "last_scan_text (state (handle_scan e now text st)) = text
    \<and> last_scan_time (state (handle_scan e now text st)) = now
    \<and> (\<forall>now' e'. now' - now < SCAN_DEBOUNCE_SECONDS \<longrightarrow>
         handle_scan e' now' text (state (handle_scan e now text st)) =
           \<lparr>state = state (handle_scan e now text st),
            trace = [Log DEBUG (Debounced_duplicate_scan text)], status = Returned ()\<rparr>)"
proof -
  let ?r = "handle_scan e now text st"
  from assms have upd: "last_scan_text (state ?r) = text" "last_scan_time (state ?r) = now"
    by (auto simp add: handle_scan_def debounced_def Let_def state_execute_command
          split: option.splits)
  then have "\<And>now' e'. now' - now < SCAN_DEBOUNCE_SECONDS \<Longrightarrow>
      handle_scan e' now' text (state ?r) =
        \<lparr>state = state ?r, trace = [Log DEBUG (Debounced_duplicate_scan text)], status = Returned ()\<rparr>"
    by (simp add: handle_scan_def debounced_def)
  with upd show ?thesis by blast
qed

theorem debounce_state_set_before_checks_witness:
  "(''a/b'' \<noteq> last_scan_text initial
     \<and> trace (handle_scan example_env 1 ''a/b'' initial)
         = [Log WARNING (Rejected_suspicious_scan_input ''a/b'')]
     \<and> state (handle_scan example_env 1 ''a/b'' initial)
         = \<lparr>last_scan_text = ''a/b'', last_scan_time = 1, shutting_down = False\<rparr>
     \<and> 2 - 1 < SCAN_DEBOUNCE_SECONDS
     \<and> trace (handle_scan example_env 2 ''a/b'' (state (handle_scan example_env 1 ''a/b'' initial)))
         = [Log DEBUG (Debounced_duplicate_scan ''a/b'')])
   \<and> (''cmd:foo'' \<noteq> last_scan_text initial
     \<and> trace (handle_scan example_env 1 ''cmd:foo'' initial) = [Log WARNING (Unknown_command ''FOO'')]
     \<and> trace (handle_scan example_env 2 ''cmd:foo'' (state (handle_scan example_env 1 ''cmd:foo'' initial)))
         = [Log DEBUG (Debounced_duplicate_scan ''cmd:foo'')])
   \<and> (''bambi'' \<noteq> last_scan_text initial
     \<and> trace (handle_scan example_env 1 ''bambi'' initial) = [Log WARNING (No_video_found_for ''bambi'')]
     \<and> trace (handle_scan example_env 2 ''bambi'' (state (handle_scan example_env 1 ''bambi'' initial)))
         = [Log DEBUG (Debounced_duplicate_scan ''bambi'')])"
  using debounce_state_set_before_checks [of "''a/b''" initial 1 example_env]
    debounce_state_set_before_checks [of "''cmd:foo''" initial 1 example_env]
    debounce_state_set_before_checks [of "''bambi''" initial 1 example_env]
  by (simp add: scan_eval)


section \<open>The safety check\<close>

text \<open>
  C1, as amended. A scanned text that contains \<open>/\<close> or \<open>..\<close> never leads to a protocol
  call, a splash generation or a change of the shutdown flag, and \<open>handle_scan\<close> returns;
  if the scan passes the debounce step it is rejected with a warning, whatever else the
  text holds (the check comes before the upper-casing and the prefix test); if it does
  not, it is discarded as a duplicate.
\<close>

theorem suspicious_scan_is_harmless:
  assumes "CHR ''/'' \<in> set text \<or> (\<exists>pre post. text = pre @ ''..'' @ post)"
  shows "actions (trace (handle_scan e now text st)) = []
    \<and> shutting_down (state (handle_scan e now text st)) = shutting_down st
    \<and> status (handle_scan e now text st) = Returned ()
    \<and> (text \<noteq> last_scan_text st \<or> SCAN_DEBOUNCE_SECONDS \<le> now - last_scan_time st \<longrightarrow>
         trace (handle_scan e now text st) = [Log WARNING (Rejected_suspicious_scan_input text)])
    \<and> (text = last_scan_text st \<and> now - last_scan_time st < SCAN_DEBOUNCE_SECONDS \<longrightarrow>
         trace (handle_scan e now text st) = [Log DEBUG (Debounced_duplicate_scan text)])"
proof -
  from assms have "suspicious text" by (simp add: suspicious_iff)
  then show ?thesis
    by (auto simp add: handle_scan_def debounced_def Let_def)
qed

theorem suspicious_scan_is_harmless_witness:
  "CHR ''/'' \<in> set ''CMD:PAUSE/../x''
   \<and> ''CMD:PAUSE/../x'' \<noteq> last_scan_text initial
   \<and> handle_scan example_env 5 ''CMD:PAUSE/../x'' initial =
       \<lparr>state = \<lparr>last_scan_text = ''CMD:PAUSE/../x'', last_scan_time = 5, shutting_down = False\<rparr>,
        trace = [Log WARNING (Rejected_suspicious_scan_input ''CMD:PAUSE/../x'')],
        status = Returned ()\<rparr>
   \<and> actions (trace (handle_scan example_env 5 ''CMD:PAUSE/../x'' initial)) = []"
  using suspicious_scan_is_harmless [of "''CMD:PAUSE/../x''" example_env 5 initial]
  by (simp add: scan_eval)

text \<open>
  C1 as stated fails for a rescan: the same text with a \<open>/\<close> scanned again one second
  later is discarded by the debounce step and is not classified as rejected.
\<close>

theorem debounced_rescan_not_rejected_counterexample:
  "CHR ''/'' \<in> set ''a/b''
   \<and> trace (handle_scan example_env 2 ''a/b'' scanned_slash_at_1)
        = [Log DEBUG (Debounced_duplicate_scan ''a/b'')]
   \<and> Log WARNING (Rejected_suspicious_scan_input ''a/b'')
        \<notin> set (trace (handle_scan example_env 2 ''a/b'' scanned_slash_at_1))"
  by (simp add: scanned_slash_at_1 scan_eval)


section \<open>The receive loop\<close>

lemma received_0 [simp]: "received rs i 0 = []"
  by (simp add: received_def)

lemma received_Suc: "received rs i (Suc n) = received rs i n @ chunk_of (rs (i + n))"
  by (simp add: received_def)

lemma received_shift: "received rs i (Suc n) = chunk_of (rs i) @ received rs (Suc i) n"
proof -
  have "[i..<i + Suc n] = i # [Suc i..<Suc i + n]"
    by (simp add: upt_conv_Cons)
  then show ?thesis by (simp add: received_def)
qed

lemma continues_shift:
  "rs i = Inr chunk \<Longrightarrow> continues rs i d (Suc n) = continues rs (Suc i) (d @ chunk) n"
  by (simp add: continues_def received_shift chunk_of_def)

lemma stop_result_shift:
  "rs i = Inr chunk \<Longrightarrow> stop_result rs i d (Suc n) = stop_result rs (Suc i) (d @ chunk) n"
  by (simp add: stop_result_def received_shift chunk_of_def split: sum.splits)

lemma recv_loop_stop: "\<not> continues rs i d 0 \<Longrightarrow> recv_loop rs i d = Some (stop_result rs i d 0)"
  by (subst recv_loop.simps) (auto simp add: continues_def stop_result_def split: sum.splits)

lemma recv_loop_continue:
  "continues rs i d 0 \<Longrightarrow> recv_loop rs i d = recv_loop rs (Suc i) (d @ chunk_of (rs i))"
  by (subst recv_loop.simps) (auto simp add: continues_def chunk_of_def split: sum.splits)

lemma recv_loop_stops_at:
  "(\<forall>k<n. continues rs i d k) \<Longrightarrow> \<not> continues rs i d n \<Longrightarrow>
   recv_loop rs i d = Some (stop_result rs i d n)"
proof (induction n arbitrary: i d)
  case 0
  then show ?case by (simp add: recv_loop_stop)
next
  case (Suc n)
  from Suc.prems(1) have c0: "continues rs i d 0" by simp
  then obtain chunk where chunk: "rs i = Inr chunk"
    by (auto simp add: continues_def split: sum.splits)
  have "\<forall>k<n. continues rs (Suc i) (d @ chunk) k"
    using Suc.prems(1) continues_shift [of rs i chunk, OF chunk] by auto
  moreover have "\<not> continues rs (Suc i) (d @ chunk) n"
    using Suc.prems(2) continues_shift [of rs i chunk, OF chunk] by simp
  ultimately have "recv_loop rs (Suc i) (d @ chunk) = Some (stop_result rs (Suc i) (d @ chunk) n)"
    by (rule Suc.IH)
  with c0 chunk show ?case
    by (simp add: recv_loop_continue chunk_of_def stop_result_shift)
qed

lemma recv_loop_Some_stops:
  "recv_loop rs i d = Some r \<Longrightarrow> \<exists>n. (\<forall>k<n. continues rs i d k) \<and> \<not> continues rs i d n"
proof (induction rule: recv_loop.raw_induct [rotated 1, consumes 1])
  case (1 recv_loop' rs i d r)
  show ?case
  proof (cases "continues rs i d 0")
    case False
    then have "(\<forall>k<0. continues rs i d k) \<and> \<not> continues rs i d 0" by simp
    then show ?thesis by blast
  next
    case True
    then obtain chunk where chunk: "rs i = Inr chunk" and more: "chunk \<noteq> []" "CHR 0x0A \<notin> set d"
      by (auto simp add: continues_def split: sum.splits)
    with 1(2) have "recv_loop' rs (Suc i) (d @ chunk) = Some r" by simp
    from 1(1) [OF this] obtain n where
      n: "\<forall>k<n. continues rs (Suc i) (d @ chunk) k" "\<not> continues rs (Suc i) (d @ chunk) n"
      by blast
    have "\<forall>k<Suc n. continues rs i d k"
    proof (intro allI impI)
      fix k assume "k < Suc n"
      then show "continues rs i d k"
        using True n(1) continues_shift [of rs i chunk, OF chunk] by (cases k) auto
    qed
    moreover have "\<not> continues rs i d (Suc n)"
      using n(2) continues_shift [of rs i chunk, OF chunk] by simp
    ultimately show ?thesis by blast
  qed
qed

lemma recv_loop_None_iff: "recv_loop rs i d = None \<longleftrightarrow> (\<forall>n. continues rs i d n)"
proof
  assume none: "recv_loop rs i d = None"
  show "\<forall>n. continues rs i d n"
  proof (rule ccontr)
    assume "\<not> (\<forall>n. continues rs i d n)"
    then obtain n where "\<not> continues rs i d n" by blast
    then have "\<exists>n. \<not> continues rs i d n" by blast
    then obtain m where m: "\<not> continues rs i d m" "\<forall>k<m. continues rs i d k"
      using exists_least_iff [of "\<lambda>n. \<not> continues rs i d n"] by auto
    from recv_loop_stops_at [OF m(2) m(1)] none show False by simp
  qed
next
  assume "\<forall>n. continues rs i d n"
  then show "recv_loop rs i d = None"
    using recv_loop_Some_stops [of rs i d] by (cases "recv_loop rs i d") auto
qed


section \<open>The shutdown flag\<close>

lemma shutting_down_handle_scan:
  "shutting_down st \<Longrightarrow> shutting_down (state (handle_scan e now text st))"
  by (auto simp add: handle_scan_def Let_def state_execute_command split: option.splits)

lemma sys_step_keeps_flag: "sys_step s s' \<Longrightarrow> shutting_down s \<Longrightarrow> shutting_down s'"
  by (induction rule: sys_step.induct)
     (simp_all add: shutting_down_handle_scan mpv_watcher_iter_def watch_one_def signal_shutdown_def)

lemma sys_steps_keep_flag: "rtranclp sys_step s s' \<Longrightarrow> shutting_down s \<Longrightarrow> shutting_down s'"
  by (induction rule: rtranclp_induct) (auto intro: sys_step_keeps_flag)

text \<open>
  C7. The shutdown flag is monotonic: every step that can write the globals (a routed
  scan, a pass of the liveness monitor, an event seen by the exit-key monitor, the signal
  handler) leaves it unchanged or sets it from false to true, so along any sequence of
  steps a set flag stays set; and each of the four triggers sets it: an accepted
  \<open>CMD:EXIT\<close> scan, the exit of the media player, a key-down of an exit key, a signal.
\<close>

theorem shutdown_flag_monotonic:
  "(sys_step s s' \<longrightarrow> shutting_down s' = shutting_down s \<or> (\<not> shutting_down s \<and> shutting_down s'))
   \<and> (rtranclp sys_step s s' \<and> shutting_down s \<longrightarrow> shutting_down s')
   \<and> (''CMD:EXIT'' \<noteq> last_scan_text s \<or> SCAN_DEBOUNCE_SECONDS \<le> now - last_scan_time s \<longrightarrow>
        shutting_down (state (handle_scan e now ''CMD:EXIT'' s)))
   \<and> shutting_down (fst (mpv_watcher_iter (Some code) s))
   \<and> shutting_down (fst (watch_one EXIT_KEYS
        \<lparr>ev_type = EV_KEY, scancode = KEY_Q, keystate = key_down\<rparr> s))
   \<and> shutting_down (signal_shutdown s)"
proof -
  have "sys_step s s' \<longrightarrow> shutting_down s' = shutting_down s \<or> (\<not> shutting_down s \<and> shutting_down s')"
    using sys_step_keeps_flag [of s s'] by blast
  moreover have "rtranclp sys_step s s' \<and> shutting_down s \<longrightarrow> shutting_down s'"
    using sys_steps_keep_flag [of s s'] by blast
  moreover have "''CMD:EXIT'' \<noteq> last_scan_text s \<or> SCAN_DEBOUNCE_SECONDS \<le> now - last_scan_time s \<longrightarrow>
        shutting_down (state (handle_scan e now ''CMD:EXIT'' s))"
    by (auto simp add: handle_scan_def debounced_def suspicious_def upper_def upper_char_def
          startswith_def COMMAND_PREFIX_def COMMANDS_def state_execute_command Let_def)
  moreover have "shutting_down (fst (mpv_watcher_iter (Some code) s))"
    by (simp add: mpv_watcher_iter_def)
  moreover have "shutting_down (fst (watch_one EXIT_KEYS
        \<lparr>ev_type = EV_KEY, scancode = KEY_Q, keystate = key_down\<rparr> s))"
    by (simp add: watch_one_def EXIT_KEYS_def)
  moreover have "shutting_down (signal_shutdown s)"
    by (simp add: signal_shutdown_def)
  ultimately show ?thesis by blast
qed

theorem shutdown_flag_monotonic_witness:
  "sys_step (signal_shutdown initial) (state (handle_scan example_env 1 ''bambi'' (signal_shutdown initial)))
   \<and> shutting_down (signal_shutdown initial)
   \<and> shutting_down (state (handle_scan example_env 1 ''bambi'' (signal_shutdown initial)))
   \<and> rtranclp sys_step (signal_shutdown initial) (fst (mpv_watcher_iter None (signal_shutdown initial)))
   \<and> shutting_down (fst (mpv_watcher_iter None (signal_shutdown initial)))
   \<and> ''CMD:EXIT'' \<noteq> last_scan_text initial
   \<and> \<not> shutting_down initial
   \<and> shutting_down (state (handle_scan example_env 1 ''CMD:EXIT'' initial))"
proof -
  let ?s = "signal_shutdown initial"
  have 1: "sys_step ?s (state (handle_scan example_env 1 ''bambi'' ?s))"
    by (rule sys_step.scan)
  have 2: "rtranclp sys_step ?s (fst (mpv_watcher_iter None ?s))"
    by (rule r_into_rtranclp) (rule sys_step.liveness)
  have 3: "shutting_down ?s" by (simp add: signal_shutdown_def)
  have 4: "''CMD:EXIT'' \<noteq> last_scan_text initial" "\<not> shutting_down initial"
    by (simp_all add: initial_def)
  show ?thesis
    using 1 2 3 4
      shutdown_flag_monotonic [of ?s "state (handle_scan example_env 1 ''bambi'' ?s)"]
      shutdown_flag_monotonic [of ?s "fst (mpv_watcher_iter None ?s)"]
      shutdown_flag_monotonic [of initial initial 1 example_env]
    by blast
qed


section \<open>The idle watcher\<close>

lemma is_idle_trace:
  "snd (is_idle l far) = IPC [''get_property'', ''idle-active''] # snd (send_body l far)"
  by (simp add: is_idle_def get_property_def send_def snd_and_then fst_and_then split: outcome.splits)

lemma splash_count_simps [simp]:
  "splash_count [] = 0"
  "splash_count (SplashGenerate # tr) = Suc (splash_count tr)"
  "splash_count (IPC c # tr) = splash_count tr"
  "splash_count (Log l m # tr) = splash_count tr"
  "splash_count (tr @ tr') = splash_count tr + splash_count tr'"
  by (simp_all add: splash_count_def)

lemma splash_count_send_body [simp]: "splash_count (snd (send_body l far)) = 0"
  using send_body_logs [of l far] by auto

lemma splash_count_show_splash [simp]: "splash_count (snd (show_splash e)) = 1"
  by (simp add: snd_show_splash split: outcome.splits)
lemma idle_pass_showing:
  assumes "fst (is_idle (lib e) (mpv e [''get_property'', ''idle-active''])) = Returned True"
    and "splash_showing w" "last_minute w = m"
  shows "idle_watcher_iter e m w =
    (w, snd (is_idle (lib e) (mpv e [''get_property'', ''idle-active''])), Returned ())"
  using assms by (simp add: idle_watcher_iter_def Let_def)

lemma idle_run_showing:
  "\<forall>p \<in> set polls. idle_at m p \<Longrightarrow> splash_showing w \<Longrightarrow> last_minute w = m \<Longrightarrow>
   splash_count (fst (snd (idle_watcher polls w))) = 0"
proof (induction polls)
  case Nil
  then show ?case by simp
next
  case (Cons p polls)
  obtain e m' where p: "p = (e, m')" by (cases p)
  with Cons.prems have idle: "fst (is_idle (lib e) (mpv e [''get_property'', ''idle-active''])) = Returned True"
    and m': "m' = m" by (simp_all add: idle_at_def)
  from Cons have rest: "splash_count (fst (snd (idle_watcher polls w))) = 0" by simp
  show ?case
    using rest idle_pass_showing [OF idle Cons.prems(2) Cons.prems(3)]
    by (simp add: p m' is_idle_trace split_beta)
qed

lemma idle_run_at_most_once:
  "\<forall>p \<in> set polls. idle_at m p \<Longrightarrow> splash_count (fst (snd (idle_watcher polls w))) \<le> 1"
proof (cases polls)
  case Nil
  then show ?thesis by simp
next
  case (Cons p rest)
  assume all: "\<forall>p \<in> set polls. idle_at m p"
  obtain e m' where p: "p = (e, m')" by (cases p)
  with all Cons have idle: "fst (is_idle (lib e) (mpv e [''get_property'', ''idle-active''])) = Returned True"
    and m': "m' = m" by (simp_all add: idle_at_def)
  from all Cons have rest: "\<forall>p \<in> set rest. idle_at m p" by simp
  show ?thesis
  proof (cases "\<not> splash_showing w \<or> m \<noteq> last_minute w")
    case False
    then have "splash_showing w" "last_minute w = m" by auto
    from idle_run_showing [OF all this] show ?thesis by simp
  next
    case True
    show ?thesis
    proof (cases "fst (show_splash e)")
      case (Returned u)
      have "splash_count (fst (snd (idle_watcher rest \<lparr>splash_showing = True, last_minute = m\<rparr>))) = 0"
        using idle_run_showing [OF rest] by simp
      with True idle Returned show ?thesis
        by (simp add: Cons p m' idle_watcher_iter_def Let_def is_idle_trace split_beta)
    next
      case (Raised x)
      with True idle show ?thesis
        by (simp add: Cons p m' idle_watcher_iter_def Let_def is_idle_trace)
    next
      case Hung
      with True idle show ?thesis
        by (simp add: Cons p m' idle_watcher_iter_def Let_def is_idle_trace)
    qed
  qed
qed

lemma actions_show_splash:
  "actions (snd (show_splash e)) = [SplashGenerate, IPC [''loadfile'', SPLASH_IMAGE e]]"
  by (simp add: snd_show_splash split: outcome.splits)

text \<open>
  C8. In a pass of the idle watcher in which the player reports idle, the splash is
  generated and loaded exactly when it is not marked as showing or the minute differs from
  the recorded one, and the marks are then set (once \<open>show_splash\<close> has returned); when
  the player reports not idle, the marks are cleared, so that the next pass that sees
  idle shows the splash again. Over any run of polls that all see idle at the same
  minute the splash is generated at most once.
\<close>

theorem idle_watcher_refresh:
  "(fst (is_idle (lib e) (mpv e [''get_property'', ''idle-active''])) = Returned True \<longrightarrow>
      actions (fst (snd (idle_watcher_iter e m w))) =
        IPC [''get_property'', ''idle-active'']
          # (if \<not> splash_showing w \<or> m \<noteq> last_minute w
             then [SplashGenerate, IPC [''loadfile'', SPLASH_IMAGE e]] else [])
      \<and> (\<not> (\<not> splash_showing w \<or> m \<noteq> last_minute w) \<longrightarrow> fst (idle_watcher_iter e m w) = w)
      \<and> ((\<not> splash_showing w \<or> m \<noteq> last_minute w) \<and> returns (show_splash e) \<longrightarrow>
           fst (idle_watcher_iter e m w) = \<lparr>splash_showing = True, last_minute = m\<rparr>))
   \<and> (fst (is_idle (lib e) (mpv e [''get_property'', ''idle-active''])) = Returned False \<longrightarrow>
      fst (idle_watcher_iter e m w) = \<lparr>splash_showing = False, last_minute = - 1\<rparr>
      \<and> actions (fst (snd (idle_watcher_iter e m w))) = [IPC [''get_property'', ''idle-active'']]
      \<and> (fst (is_idle (lib e') (mpv e' [''get_property'', ''idle-active''])) = Returned True \<longrightarrow>
           actions (fst (snd (idle_watcher_iter e' m' (fst (idle_watcher_iter e m w))))) =
             [IPC [''get_property'', ''idle-active''], SplashGenerate,
              IPC [''loadfile'', SPLASH_IMAGE e']]))
   \<and> ((\<forall>p \<in> set polls. snd p = m
          \<and> fst (is_idle (lib (fst p)) (mpv (fst p) [''get_property'', ''idle-active''])) = Returned True) \<longrightarrow>
        length (filter (\<lambda>ev. ev = SplashGenerate) (fst (snd (idle_watcher polls w)))) \<le> 1)"
proof -
  let ?c = "is_idle (lib e) (mpv e [''get_property'', ''idle-active''])"
  have idle: "fst ?c = Returned True \<longrightarrow>
      actions (fst (snd (idle_watcher_iter e m w))) =
        IPC [''get_property'', ''idle-active'']
          # (if \<not> splash_showing w \<or> m \<noteq> last_minute w
             then [SplashGenerate, IPC [''loadfile'', SPLASH_IMAGE e]] else [])
      \<and> (\<not> (\<not> splash_showing w \<or> m \<noteq> last_minute w) \<longrightarrow> fst (idle_watcher_iter e m w) = w)
      \<and> ((\<not> splash_showing w \<or> m \<noteq> last_minute w) \<and> returns (show_splash e) \<longrightarrow>
           fst (idle_watcher_iter e m w) = \<lparr>splash_showing = True, last_minute = m\<rparr>)"
    by (cases "fst (show_splash e)")
       (auto simp add: idle_watcher_iter_def Let_def is_idle_trace actions_show_splash returns_def)
  have busy: "fst ?c = Returned False \<longrightarrow>
      fst (idle_watcher_iter e m w) = \<lparr>splash_showing = False, last_minute = - 1\<rparr>
      \<and> actions (fst (snd (idle_watcher_iter e m w))) = [IPC [''get_property'', ''idle-active'']]"
    by (simp add: idle_watcher_iter_def Let_def is_idle_trace)
  have "next": "fst (is_idle (lib e') (mpv e' [''get_property'', ''idle-active''])) = Returned True \<longrightarrow>
      actions (fst (snd (idle_watcher_iter e' m' \<lparr>splash_showing = False, last_minute = - 1\<rparr>))) =
        [IPC [''get_property'', ''idle-active''], SplashGenerate, IPC [''loadfile'', SPLASH_IMAGE e']]"
    by (cases "fst (show_splash e')")
       (auto simp add: idle_watcher_iter_def Let_def is_idle_trace actions_show_splash)
  have run: "(\<forall>p \<in> set polls. snd p = m
          \<and> fst (is_idle (lib (fst p)) (mpv (fst p) [''get_property'', ''idle-active''])) = Returned True) \<longrightarrow>
        length (filter (\<lambda>ev. ev = SplashGenerate) (fst (snd (idle_watcher polls w)))) \<le> 1"
    using idle_run_at_most_once [of polls m w] by (simp add: idle_at_def splash_count_def)
  from idle busy "next" run show ?thesis by simp
qed

theorem idle_watcher_refresh_witness:
  "fst (is_idle (lib idle_env) (mpv idle_env [''get_property'', ''idle-active''])) = Returned True
   \<and> \<not> splash_showing idle_initial
   \<and> returns (show_splash idle_env)
   \<and> actions (fst (snd (idle_watcher_iter idle_env 7 idle_initial))) =
        [IPC [''get_property'', ''idle-active''], SplashGenerate,
         IPC [''loadfile'', SPLASH_IMAGE idle_env]]
   \<and> fst (idle_watcher_iter idle_env 7 idle_initial) = \<lparr>splash_showing = True, last_minute = 7\<rparr>
   \<and> fst (is_idle (lib busy_env) (mpv busy_env [''get_property'', ''idle-active''])) = Returned False
   \<and> fst (idle_watcher_iter busy_env 7 \<lparr>splash_showing = True, last_minute = 7\<rparr>) =
        \<lparr>splash_showing = False, last_minute = - 1\<rparr>
   \<and> length (filter (\<lambda>ev. ev = SplashGenerate)
        (fst (snd (idle_watcher [(idle_env, 7), (idle_env, 7), (idle_env, 7)] idle_initial)))) \<le> 1"
  using idle_watcher_refresh [of idle_env 7 idle_initial idle_env 7
      "[(idle_env, 7), (idle_env, 7), (idle_env, 7)]"]
    idle_watcher_refresh [of busy_env 7 "\<lparr>splash_showing = True, last_minute = 7\<rparr>" idle_env 7 "[]"]
  by (simp add: is_idle_examples show_splash_examples returns_def idle_initial_def)


section \<open>Command dispatch\<close>

lemma str_int_steps:
  "str_int VOLUME_STEP = ''5''" "str_int (- VOLUME_STEP) = ''-5''"
  "str_int SEEK_STEP = ''10''" "str_int (- SEEK_STEP) = ''-10''"
  by (simp_all add: str_int_def VOLUME_STEP_def SEEK_STEP_def)

lemma passes_debounce:
  "text \<noteq> last_scan_text st \<or> SCAN_DEBOUNCE_SECONDS \<le> now - last_scan_time st \<Longrightarrow>
   \<not> debounced st now text"
  by (auto simp add: debounced_def)

lemma returns_operation:
  "returns (operation l far c) \<longleftrightarrow> (\<exists>b. fst (operation l far c) = Returned b)"
  by (simp add: returns_def split: outcome.splits)

lemma actions_execute_command:
  "actions (trace (execute_command e cmd st)) =
    (if cmd = ''PAUSE'' then [IPC [''cycle'', ''pause'']]
     else if cmd = ''STOP'' then
       IPC [''stop''] # (if returns (stop (lib e) (mpv e [''stop'']))
                          then [SplashGenerate, IPC [''loadfile'', SPLASH_IMAGE e]] else [])
     else if cmd = ''VOLUP'' then [IPC [''add'', ''volume'', ''5'']]
     else if cmd = ''VOLDOWN'' then [IPC [''add'', ''volume'', ''-5'']]
     else if cmd = ''MUTE'' then [IPC [''cycle'', ''mute'']]
     else if cmd = ''FWD'' then [IPC [''seek'', ''10'', ''relative'']]
     else if cmd = ''RWD'' then [IPC [''seek'', ''-10'', ''relative'']]
     else [])"
  by (simp add: execute_command_def operations snd_and_then str_int_steps actions_show_splash
        returns_def split: outcome.splits)

text \<open>
  C3. For every scan that passes the debounce step and the safety check and whose
  upper-cased text is \<open>CMD:\<close> followed by \<open>cmd\<close>: \<open>PAUSE\<close> and \<open>MUTE\<close> cycle the property,
  \<open>VOLUP\<close> adds the volume step 5 and \<open>VOLDOWN\<close> adds -5, \<open>FWD\<close> seeks by 10 seconds and
  \<open>RWD\<close> by -10, \<open>STOP\<close> issues \<open>stop\<close> and then, the call having returned, generates and
  loads the splash, \<open>EXIT\<close> makes no call and sets the shutdown flag; these are the only
  protocol calls made. Any other \<open>cmd\<close> gives a warning and nothing else.
\<close>

theorem command_dispatch:
  assumes "text \<noteq> last_scan_text st \<or> SCAN_DEBOUNCE_SECONDS \<le> now - last_scan_time st"
    and "CHR ''/'' \<notin> set text" and "\<nexists>pre post. text = pre @ ''..'' @ post"
    and "upper text = ''CMD:'' @ cmd"
  shows "(cmd = ''PAUSE'' \<longrightarrow> actions (trace (handle_scan e now text st)) = [IPC [''cycle'', ''pause'']])
    \<and> (cmd = ''STOP'' \<longrightarrow> actions (trace (handle_scan e now text st)) =
          IPC [''stop''] # (if returns (stop (lib e) (mpv e [''stop'']))
                             then [SplashGenerate, IPC [''loadfile'', SPLASH_IMAGE e]] else []))
    \<and> (cmd = ''VOLUP'' \<longrightarrow>
          actions (trace (handle_scan e now text st)) = [IPC [''add'', ''volume'', ''5'']])
    \<and> (cmd = ''VOLDOWN'' \<longrightarrow>
          actions (trace (handle_scan e now text st)) = [IPC [''add'', ''volume'', ''-5'']])
    \<and> (cmd = ''MUTE'' \<longrightarrow> actions (trace (handle_scan e now text st)) = [IPC [''cycle'', ''mute'']])
    \<and> (cmd = ''FWD'' \<longrightarrow>
          actions (trace (handle_scan e now text st)) = [IPC [''seek'', ''10'', ''relative'']])
    \<and> (cmd = ''RWD'' \<longrightarrow>
          actions (trace (handle_scan e now text st)) = [IPC [''seek'', ''-10'', ''relative'']])
    \<and> (cmd = ''EXIT'' \<longrightarrow> actions (trace (handle_scan e now text st)) = []
          \<and> shutting_down (state (handle_scan e now text st)))
    \<and> (cmd \<noteq> ''EXIT'' \<longrightarrow> shutting_down (state (handle_scan e now text st)) = shutting_down st)
    \<and> (cmd \<notin> set [''PAUSE'', ''STOP'', ''VOLUP'', ''VOLDOWN'', ''MUTE'', ''FWD'', ''RWD'', ''EXIT''] \<longrightarrow>
          trace (handle_scan e now text st) = [Log WARNING (Unknown_command cmd)])"
proof -
  from assms(2,3) have safe: "\<not> suspicious text" by (simp add: suspicious_iff)
  have pre: "startswith (upper text) COMMAND_PREFIX"
    and rest: "drop (length COMMAND_PREFIX) (upper text) = cmd"
    using assms(4) by (simp_all add: startswith_def COMMAND_PREFIX_def)
  let ?st = "st\<lparr>last_scan_text := text, last_scan_time := now\<rparr>"
  have known: "cmd \<in> COMMANDS \<Longrightarrow> handle_scan e now text st =
      prepend [Log INFO (Executing_command cmd)] (execute_command e cmd ?st)"
    using passes_debounce [OF assms(1)] safe pre rest by (simp add: handle_scan_def Let_def)
  have unknown: "cmd \<notin> COMMANDS \<Longrightarrow> handle_scan e now text st =
      \<lparr>state = ?st, trace = [Log WARNING (Unknown_command cmd)], status = Returned ()\<rparr>"
    using passes_debounce [OF assms(1)] safe pre rest by (simp add: handle_scan_def Let_def)
  show ?thesis
  proof (cases "cmd \<in> COMMANDS")
    case True
    from known [OF True] True show ?thesis
      by (auto simp add: actions_execute_command state_execute_command COMMANDS_def)
  next
    case False
    from unknown [OF False] False show ?thesis
      by (auto simp add: COMMANDS_def)
  qed
qed

theorem command_dispatch_witness:
  "''cmd:volup'' \<noteq> last_scan_text initial
   \<and> CHR ''/'' \<notin> set ''cmd:volup'' \<and> (\<nexists>pre post. ''cmd:volup'' = pre @ ''..'' @ post)
   \<and> upper ''cmd:volup'' = ''CMD:'' @ ''VOLUP''
   \<and> actions (trace (handle_scan idle_env 1 ''cmd:volup'' initial)) = [IPC [''add'', ''volume'', ''5'']]
   \<and> upper ''Cmd:Stop'' = ''CMD:'' @ ''STOP''
   \<and> returns (stop (lib idle_env) (mpv idle_env [''stop'']))
   \<and> actions (trace (handle_scan idle_env 1 ''Cmd:Stop'' initial)) =
        [IPC [''stop''], SplashGenerate, IPC [''loadfile'', SPLASH_IMAGE idle_env]]
   \<and> upper ''CMD:FOO'' = ''CMD:'' @ ''FOO''
   \<and> trace (handle_scan idle_env 1 ''CMD:FOO'' initial) = [Log WARNING (Unknown_command ''FOO'')]"
proof -
  have stop: "returns (stop (lib idle_env) (mpv idle_env [''stop'']))"
    by (simp add: returns_def stop_def operation_eval idle_env_def idle_player_def
          send_body_replying is_success_def)
  have safe: "\<nexists>pre post. ''cmd:volup'' = pre @ ''..'' @ post"
    "\<nexists>pre post. ''Cmd:Stop'' = pre @ ''..'' @ post"
    "\<nexists>pre post. ''CMD:FOO'' = pre @ ''..'' @ post"
    using contains_iff [of "''cmd:volup''" "''..''"] contains_iff [of "''Cmd:Stop''" "''..''"]
      contains_iff [of "''CMD:FOO''" "''..''"]
    by simp_all
  have up: "upper ''cmd:volup'' = ''CMD:'' @ ''VOLUP''" "upper ''Cmd:Stop'' = ''CMD:'' @ ''STOP''"
    "upper ''CMD:FOO'' = ''CMD:'' @ ''FOO''"
    by (simp_all add: upper_def upper_char_def)
  have new: "''cmd:volup'' \<noteq> last_scan_text initial" "''Cmd:Stop'' \<noteq> last_scan_text initial"
    "''CMD:FOO'' \<noteq> last_scan_text initial"
    by (simp_all add: initial_def)
  show ?thesis
    using command_dispatch [of "''cmd:volup''" initial 1 "''VOLUP''" idle_env]
      command_dispatch [of "''Cmd:Stop''" initial 1 "''STOP''" idle_env]
      command_dispatch [of "''CMD:FOO''" initial 1 "''FOO''" idle_env]
      stop safe up new
    by simp
qed


section \<open>Media resolution\<close>

text \<open>
  C4. For every scan that passes the debounce step and the safety check and whose
  upper-cased text does not start with \<open>CMD:\<close>, and every media directory: a \<open>loadfile\<close>
  call is made exactly when the directory holds a regular file whose extension, in lower
  case, is one of the supported ones and whose stem equals the scanned text up to case;
  the call, the only one made, then carries the path of such a file; otherwise the
  outcome is a warning and nothing else.
\<close>

theorem media_resolution:
  assumes "text \<noteq> last_scan_text st \<or> SCAN_DEBOUNCE_SECONDS \<le> now - last_scan_time st"
    and "CHR ''/'' \<notin> set text" and "\<nexists>pre post. text = pre @ ''..'' @ post"
    and "\<not> prefix ''CMD:'' (upper text)"
  shows "((\<exists>p. IPC [''loadfile'', p] \<in> set (trace (handle_scan e now text st))) \<longleftrightarrow>
           (\<exists>f \<in> set (media e). is_file f \<and> lower (path_suffix (name f)) \<in> VIDEO_EXTENSIONS
               \<and> lower (path_stem (name f)) = lower text))
    \<and> (if \<exists>f \<in> set (media e). is_file f \<and> lower (path_suffix (name f)) \<in> VIDEO_EXTENSIONS
             \<and> lower (path_stem (name f)) = lower text
        then \<exists>f \<in> set (media e). is_file f \<and> lower (path_suffix (name f)) \<in> VIDEO_EXTENSIONS
             \<and> lower (path_stem (name f)) = lower text
             \<and> actions (trace (handle_scan e now text st)) =
                 [IPC [''loadfile'', MEDIA_DIR e @ ''/'' @ name f]]
        else trace (handle_scan e now text st) = [Log WARNING (No_video_found_for text)])"
proof -
  let ?match = "\<lambda>f. is_file f \<and> lower (path_suffix (name f)) \<in> VIDEO_EXTENSIONS
      \<and> lower (path_stem (name f)) = lower text"
  from assms(2,3) have safe: "\<not> suspicious text" by (simp add: suspicious_iff)
  have nopre: "\<not> startswith (upper text) COMMAND_PREFIX"
    using assms(4) by (simp add: startswith_def COMMAND_PREFIX_def)
  have vm: "video_match (lower text) = ?match"
    by (rule ext) (simp add: video_match_def)
  show ?thesis
  proof (cases "find_video (media e) text")
    case None
    then have none: "\<not> (\<exists>f \<in> set (media e). ?match f)"
      by (auto simp add: find_video_def Let_def vm find_None_iff)
    have "trace (handle_scan e now text st) = [Log WARNING (No_video_found_for text)]"
      using passes_debounce [OF assms(1)] safe nopre None by (simp add: handle_scan_def Let_def)
    with none show ?thesis by simp
  next
    case (Some video)
    then have v: "video \<in> set (media e)" "?match video"
      by (auto simp add: find_video_def Let_def vm find_Some_iff)
    have tr: "trace (handle_scan e now text st) =
        Log INFO (Playing (path_str e video)) # IPC [''loadfile'', path_str e video]
          # snd (send_body (lib e) (mpv e [''loadfile'', path_str e video]))"
      using passes_debounce [OF assms(1)] safe nopre Some
      by (simp add: handle_scan_def Let_def snd_and_then load_file_def)
    then have act: "actions (trace (handle_scan e now text st)) =
        [IPC [''loadfile'', MEDIA_DIR e @ ''/'' @ name video]]"
      by (simp add: path_str_def)
    from tr have "\<exists>p. IPC [''loadfile'', p] \<in> set (trace (handle_scan e now text st))"
      by auto
    with v act show ?thesis by auto
  qed
qed

lemma bambi_parts:
  "path_suffix ''Bambi.mp4'' = ''.mp4''" "path_stem ''Bambi.mp4'' = ''Bambi''"
  by (simp_all add: path_suffix_def path_stem_def rfind_def)

theorem media_resolution_witness:
  "''bambi'' \<noteq> last_scan_text initial
   \<and> CHR ''/'' \<notin> set ''bambi'' \<and> (\<nexists>pre post. ''bambi'' = pre @ ''..'' @ post)
   \<and> \<not> prefix ''CMD:'' (upper ''bambi'')
   \<and> is_file bambi \<and> lower (path_suffix (name bambi)) \<in> VIDEO_EXTENSIONS
   \<and> lower (path_stem (name bambi)) = lower ''bambi''
   \<and> actions (trace (handle_scan idle_env 1 ''bambi'' initial)) =
        [IPC [''loadfile'', ''/srv/media/Bambi.mp4'']]
   \<and> media example_env = []
   \<and> trace (handle_scan example_env 1 ''bambi'' initial) = [Log WARNING (No_video_found_for ''bambi'')]"
proof -
  have safe: "\<nexists>pre post. ''bambi'' = pre @ ''..'' @ post"
    using contains_iff [of "''bambi''" "''..''"] by simp
  have nopre: "\<not> prefix ''CMD:'' (upper ''bambi'')"
    by (simp add: upper_def upper_char_def)
  have new: "''bambi'' \<noteq> last_scan_text initial"
    by (simp add: initial_def)
  have m: "is_file bambi" "lower (path_suffix (name bambi)) \<in> VIDEO_EXTENSIONS"
    "lower (path_stem (name bambi)) = lower ''bambi''"
    by (simp_all add: bambi_def bambi_parts lower_def lower_char_def VIDEO_EXTENSIONS_def)
  have dir: "media idle_env = [bambi]" "MEDIA_DIR idle_env = ''/srv/media''"
    "media example_env = []" "name bambi = ''Bambi.mp4''"
    by (simp_all add: idle_env_def example_env_def bambi_def)
  show ?thesis
    using media_resolution [of "''bambi''" initial 1 idle_env]
      media_resolution [of "''bambi''" initial 1 example_env]
      safe nopre new m dir
    by simp
qed


section \<open>The protocol client's results\<close>

lemma recv_loop_Some_iff:
  "recv_loop rs i d = Some r \<longleftrightarrow>
     (\<exists>n. (\<forall>k<n. continues rs i d k) \<and> \<not> continues rs i d n \<and> r = stop_result rs i d n)"
proof
  assume some: "recv_loop rs i d = Some r"
  from recv_loop_Some_stops [OF some] obtain n where
    n: "\<forall>k<n. continues rs i d k" "\<not> continues rs i d n" by blast
  from recv_loop_stops_at [OF n] some have "r = stop_result rs i d n" by simp
  with n show "\<exists>n. (\<forall>k<n. continues rs i d k) \<and> \<not> continues rs i d n \<and> r = stop_result rs i d n"
    by blast
next
  assume "\<exists>n. (\<forall>k<n. continues rs i d k) \<and> \<not> continues rs i d n \<and> r = stop_result rs i d n"
  then show "recv_loop rs i d = Some r"
    using recv_loop_stops_at [of _ rs i d] by blast
qed

lemma fst_operation:
  "fst (operation l far c) =
     (case fst (send_body l far) of Returned resp \<Rightarrow> is_success resp
      | Raised x \<Rightarrow> Raised x | Hung \<Rightarrow> Hung)"
  by (simp add: operation_eval)

lemma fst_send_except [simp]: "fst (send_except x) = Returned JNull"
  by (simp add: send_except_def)

lemma is_success_True:
  "is_success resp = Returned True \<longleftrightarrow>
     (\<exists>kvs. resp = JObj kvs \<and> map_of kvs ''error'' = Some (JStr ''success''))"
  by (cases resp) (simp_all add: is_success_def)

lemma send_body_connect:
  "connect_raises far = Some x \<Longrightarrow> send_body l far = send_except x"
  by (simp add: send_body_def)

lemma send_body_sendall:
  "connect_raises far = None \<Longrightarrow> sendall_raises far = Some x \<Longrightarrow> send_body l far = send_except x"
  by (simp add: send_body_def)

lemma send_body_recv:
  "connect_raises far = None \<Longrightarrow> sendall_raises far = None \<Longrightarrow>
   send_body l far =
     (case recv_loop (recvs far) 0 [] of
        None \<Rightarrow> (Hung, [])
      | Some (Inl x) \<Rightarrow> send_except x
      | Some (Inr data) \<Rightarrow>
          if data \<noteq> [] then
            (case decode l data of
               None \<Rightarrow> send_except UnicodeDecodeError
             | Some s \<Rightarrow>
                (case loads l (first_line s) of
                   None \<Rightarrow> send_except JSONDecodeError
                 | Some j \<Rightarrow> (Returned j, [])))
          else (Returned JNull, []))"
  by (simp add: send_body_def)

lemma is_success_JNull [simp]: "is_success JNull = Returned False"
  by (simp add: is_success_def)

lemma operation_connect_fails:
  "connect_raises far = Some x \<Longrightarrow> fst (operation l far c) = Returned False"
  by (simp add: fst_operation send_body_connect)

lemma operation_sendall_fails:
  "connect_raises far = None \<Longrightarrow> sendall_raises far = Some x \<Longrightarrow>
   fst (operation l far c) = Returned False"
  by (simp add: fst_operation send_body_sendall)

lemma operation_after_recv:
  assumes "connect_raises far = None" "sendall_raises far = None"
  shows "fst (operation l far c) =
     (case recv_loop (recvs far) 0 [] of
        None \<Rightarrow> Hung
      | Some (Inl x) \<Rightarrow> Returned False
      | Some (Inr data) \<Rightarrow>
          if data \<noteq> [] then
            (case decode l data of
               None \<Rightarrow> Returned False
             | Some s \<Rightarrow>
                (case loads l (first_line s) of
                   None \<Rightarrow> Returned False
                 | Some j \<Rightarrow> is_success j))
          else Returned False)"
  by (simp add: fst_operation send_body_recv [OF assms] split: option.splits sum.splits)

lemma operation_True_iff:
  "fst (operation l far c) = Returned True \<longleftrightarrow>
     connect_raises far = None \<and> sendall_raises far = None
     \<and> (\<exists>data s kvs. recv_loop (recvs far) 0 [] = Some (Inr data) \<and> data \<noteq> []
           \<and> decode l data = Some s \<and> loads l (first_line s) = Some (JObj kvs)
           \<and> map_of kvs ''error'' = Some (JStr ''success''))"
proof (cases "connect_raises far")
  case (Some x)
  then show ?thesis by (simp add: operation_connect_fails)
next
  case None
  show ?thesis
  proof (cases "sendall_raises far")
    case (Some x)
    with None show ?thesis by (simp add: operation_sendall_fails)
  next
    case sNone: None
    show ?thesis
      by (simp add: operation_after_recv [OF None sNone] None sNone is_success_True
            split: option.splits sum.splits)
  qed
qed

lemma operation_Hung_iff:
  "fst (operation l far c) = Hung \<longleftrightarrow>
     connect_raises far = None \<and> sendall_raises far = None
     \<and> recv_loop (recvs far) 0 [] = None"
proof (cases "connect_raises far")
  case (Some x)
  then show ?thesis by (simp add: operation_connect_fails)
next
  case None
  show ?thesis
  proof (cases "sendall_raises far")
    case (Some x)
    with None show ?thesis by (simp add: operation_sendall_fails)
  next
    case sNone: None
    have "is_success j \<noteq> Hung" for j
      by (cases j) (simp_all add: is_success_def)
    then show ?thesis
      by (simp add: operation_after_recv [OF None sNone] None sNone
            split: option.splits sum.splits)
  qed
qed

lemma recv_exception:
  assumes "\<forall>k<n. continues rs 0 [] k" "CHR 0x0A \<notin> set (received rs 0 n)" "rs n = Inl x"
  shows "recv_loop rs 0 [] = Some (Inl x)"
proof -
  from assms(3) have "\<not> continues rs 0 [] n" by (simp add: continues_def)
  from recv_loop_stops_at [OF assms(1) this] assms(2,3) show ?thesis
    by (simp add: stop_result_def)
qed

lemma recv_closed_at_once: "rs 0 = Inr [] \<Longrightarrow> recv_loop rs 0 [] = Some (Inr [])"
  by (subst recv_loop.simps) simp

text \<open>
  C5, as amended. For each of the seven operations and every behaviour of the far end:
  the operation returns \<open>True\<close> exactly when the connection and the send succeed, the
  receive loop stops with bytes received (at the first chunk that brings a newline, or
  because the far end closed) and the first line of these bytes decodes and parses as a
  JSON object whose \<open>error\<close> is the string \<open>success\<close>; it never returns exactly when the far
  end keeps sending bytes without a newline; and it returns \<open>False\<close> when the connection
  or the send raises (refusal, missing socket path, timeout, anything else), when a
  \<open>recv\<close> raises or times out, when the far end closes without a response, and when the
  bytes received do not decode or parse.
\<close>

theorem client_operation_result:
  assumes "c \<in> {load_file l far path, stop l far, pause_toggle l far, volume_up l far step,
                 volume_down l far step, mute_toggle l far, seek l far seconds}"
  shows "(fst c = Returned True \<longleftrightarrow>
            connect_raises far = None \<and> sendall_raises far = None
            \<and> (\<exists>n data s kvs. (\<forall>k<n. continues (recvs far) 0 [] k)
                 \<and> \<not> continues (recvs far) 0 [] n
                 \<and> stop_result (recvs far) 0 [] n = Inr data \<and> data \<noteq> []
                 \<and> decode l data = Some s \<and> loads l (first_line s) = Some (JObj kvs)
                 \<and> map_of kvs ''error'' = Some (JStr ''success'')))
    \<and> (fst c = Hung \<longleftrightarrow>
            connect_raises far = None \<and> sendall_raises far = None
            \<and> (\<forall>n. continues (recvs far) 0 [] n))
    \<and> (connect_raises far \<noteq> None \<longrightarrow> fst c = Returned False)
    \<and> (connect_raises far = None \<and> sendall_raises far \<noteq> None \<longrightarrow> fst c = Returned False)
    \<and> (connect_raises far = None \<and> sendall_raises far = None
         \<and> (\<forall>k<n. continues (recvs far) 0 [] k) \<and> CHR 0x0A \<notin> set (received (recvs far) 0 n)
         \<and> recvs far n = Inl x \<longrightarrow> fst c = Returned False)
    \<and> (connect_raises far = None \<and> sendall_raises far = None \<and> recvs far 0 = Inr [] \<longrightarrow>
         fst c = Returned False)
    \<and> (connect_raises far = None \<and> sendall_raises far = None
         \<and> (\<forall>k<n. continues (recvs far) 0 [] k) \<and> \<not> continues (recvs far) 0 [] n
         \<and> stop_result (recvs far) 0 [] n = Inr data
         \<and> (decode l data = None \<or> (\<exists>s. decode l data = Some s \<and> loads l (first_line s) = None))
         \<longrightarrow> fst c = Returned False)"
proof -
  from assms obtain command where c: "c = operation l far command"
    by (auto simp add: operations)
  have t: "fst c = Returned True \<longleftrightarrow>
            connect_raises far = None \<and> sendall_raises far = None
            \<and> (\<exists>n data s kvs. (\<forall>k<n. continues (recvs far) 0 [] k)
                 \<and> \<not> continues (recvs far) 0 [] n
                 \<and> stop_result (recvs far) 0 [] n = Inr data \<and> data \<noteq> []
                 \<and> decode l data = Some s \<and> loads l (first_line s) = Some (JObj kvs)
                 \<and> map_of kvs ''error'' = Some (JStr ''success''))"
    unfolding c operation_True_iff recv_loop_Some_iff by (rule iffI; clarsimp; metis)
  have h: "fst c = Hung \<longleftrightarrow>
            connect_raises far = None \<and> sendall_raises far = None
            \<and> (\<forall>n. continues (recvs far) 0 [] n)"
    unfolding c operation_Hung_iff recv_loop_None_iff by (rule refl)
  have f1: "connect_raises far \<noteq> None \<longrightarrow> fst c = Returned False"
    unfolding c by (auto simp add: operation_connect_fails)
  have f2: "connect_raises far = None \<and> sendall_raises far \<noteq> None \<longrightarrow> fst c = Returned False"
    unfolding c by (auto simp add: operation_sendall_fails)
  have f3: "connect_raises far = None \<and> sendall_raises far = None
         \<and> (\<forall>k<n. continues (recvs far) 0 [] k) \<and> CHR 0x0A \<notin> set (received (recvs far) 0 n)
         \<and> recvs far n = Inl x \<longrightarrow> fst c = Returned False"
  proof (intro impI, elim conjE)
    assume a: "connect_raises far = None" "sendall_raises far = None"
      and b: "\<forall>k<n. continues (recvs far) 0 [] k" "CHR 0x0A \<notin> set (received (recvs far) 0 n)"
        "recvs far n = Inl x"
    from recv_exception [of n "recvs far" x, OF b] show "fst c = Returned False"
      unfolding c by (simp add: operation_after_recv [OF a])
  qed
  have f4: "connect_raises far = None \<and> sendall_raises far = None \<and> recvs far 0 = Inr [] \<longrightarrow>
         fst c = Returned False"
  proof (intro impI, elim conjE)
    assume a: "connect_raises far = None" "sendall_raises far = None"
      and b: "recvs far 0 = Inr []"
    from recv_closed_at_once [of "recvs far", OF b] show "fst c = Returned False"
      unfolding c by (simp add: operation_after_recv [OF a])
  qed
  have f5: "connect_raises far = None \<and> sendall_raises far = None
         \<and> (\<forall>k<n. continues (recvs far) 0 [] k) \<and> \<not> continues (recvs far) 0 [] n
         \<and> stop_result (recvs far) 0 [] n = Inr data
         \<and> (decode l data = None \<or> (\<exists>s. decode l data = Some s \<and> loads l (first_line s) = None))
         \<longrightarrow> fst c = Returned False"
  proof (intro impI, elim conjE)
    assume a: "connect_raises far = None" "sendall_raises far = None"
      and b: "\<forall>k<n. continues (recvs far) 0 [] k" "\<not> continues (recvs far) 0 [] n"
      and d: "stop_result (recvs far) 0 [] n = Inr data"
      and e: "decode l data = None \<or> (\<exists>s. decode l data = Some s \<and> loads l (first_line s) = None)"
    from recv_loop_stops_at [OF b] d have "recv_loop (recvs far) 0 [] = Some (Inr data)" by simp
    with e show "fst c = Returned False"
      unfolding c by (auto simp add: operation_after_recv [OF a])
  qed
  from t h f1 f2 f3 f4 f5 show ?thesis by blast
qed

theorem client_operation_result_witness:
  "connect_raises (replying success_reply) = None
   \<and> sendall_raises (replying success_reply) = None
   \<and> fst (load_file reply_lib (replying success_reply) ''/srv/media/Bambi.mp4'') = Returned True
   \<and> connect_raises refusing = Some ConnectionRefusedError
   \<and> fst (stop reply_lib refusing) = Returned False"
proof -
  have a: "load_file reply_lib (replying success_reply) ''/srv/media/Bambi.mp4''
      \<in> {load_file reply_lib (replying success_reply) ''/srv/media/Bambi.mp4'',
          stop reply_lib (replying success_reply), pause_toggle reply_lib (replying success_reply),
          volume_up reply_lib (replying success_reply) 5,
          volume_down reply_lib (replying success_reply) 5,
          mute_toggle reply_lib (replying success_reply), seek reply_lib (replying success_reply) 10}"
    by simp
  have b: "stop reply_lib refusing
      \<in> {load_file reply_lib refusing ''/srv/media/Bambi.mp4'',
          stop reply_lib refusing, pause_toggle reply_lib refusing,
          volume_up reply_lib refusing 5, volume_down reply_lib refusing 5,
          mute_toggle reply_lib refusing, seek reply_lib refusing 10}"
    by simp
  have t: "fst (load_file reply_lib (replying success_reply) ''/srv/media/Bambi.mp4'') = Returned True"
    by (simp add: load_file_def operation_eval send_body_replying is_success_def)
  show ?thesis
    using client_operation_result [OF a] client_operation_result [OF b] t
    by simp
qed

text \<open>
  C5 as stated fails for a reply that is not newline-terminated: the far end sends the
  success object without a newline and closes, no newline-terminated response is ever
  received, and the operation returns \<open>True\<close>.
\<close>

theorem unterminated_reply_succeeds_counterexample:
  "recvs (unterminated success_reply) 0 = Inr success_reply
   \<and> CHR 0x0A \<notin> set success_reply
   \<and> recvs (unterminated success_reply) 1 = Inr []
   \<and> fst (load_file reply_lib (unterminated success_reply) ''/srv/media/Bambi.mp4'') = Returned True"
  by (simp add: load_file_def operation_eval send_body_replying is_success_def replies_distinct,
      simp add: unterminated_def)

text \<open>
  A reply that parses as JSON but is not an object makes the operation raise
  \<open>AttributeError\<close>, from \<open>resp.get\<close> outside the \<open>try\<close> of \<open>_send\<close>.
\<close>

lemma non_object_reply_raises:
  "fst (stop reply_lib (replying array_reply)) = Raised AttributeError"
  by (simp add: stop_def operation_eval send_body_replying is_success_def)


section \<open>The idle query\<close>

lemma fst_send [simp]: "fst (send l far c) = fst (send_body l far)"
  by (simp add: send_def and_then_def emit_def split: outcome.splits)

lemma fst_is_idle:
  "fst (is_idle l far) =
     (case fst (send_body l far) of
        Returned resp \<Rightarrow>
          (case get_property_result resp of
             Returned val \<Rightarrow> Returned (val = JBool True)
           | Raised x \<Rightarrow> Raised x | Hung \<Rightarrow> Hung)
      | Raised x \<Rightarrow> Raised x | Hung \<Rightarrow> Hung)"
  by (simp add: is_idle_eval)

lemma get_property_result_JObj:
  "get_property_result (JObj kvs) =
     Returned (if map_of kvs ''error'' = Some (JStr ''success'') then dict_get kvs ''data'' else JNull)"
  by (cases kvs) (simp_all add: get_property_result_def truthy_def)

lemma get_property_result_True:
  "(case get_property_result resp of Returned val \<Rightarrow> Returned (val = JBool True)
      | Raised x \<Rightarrow> Raised x | Hung \<Rightarrow> Hung) = Returned True \<longleftrightarrow>
   (\<exists>kvs. resp = JObj kvs \<and> map_of kvs ''error'' = Some (JStr ''success'')
      \<and> map_of kvs ''data'' = Some (JBool True))"
proof (cases resp)
  case (JObj kvs)
  then show ?thesis
    by (simp add: get_property_result_JObj dict_get_def split: option.splits)
qed (simp_all add: get_property_result_def truthy_def)

text \<open>
  C9. \<open>is_idle\<close> returns \<open>True\<close> exactly when the response \<open>_send\<close> returns for the property
  read is an object whose \<open>error\<close> is the string \<open>success\<close> and whose \<open>data\<close> is the boolean
  \<open>true\<close>; it returns \<open>False\<close> when the connection fails, when a \<open>recv\<close> raises or times out,
  whenever \<open>_send\<close> returns \<open>None\<close>, when the \<open>error\<close> field is not \<open>success\<close>, when \<open>data\<close> is
  missing, and when \<open>data\<close> is anything but \<open>true\<close>.
\<close>

theorem is_idle_fails_closed:
  "(fst (is_idle l far) = Returned True \<longleftrightarrow>
      (\<exists>kvs. fst (send l far [''get_property'', ''idle-active'']) = Returned (JObj kvs)
         \<and> map_of kvs ''error'' = Some (JStr ''success'')
         \<and> map_of kvs ''data'' = Some (JBool True)))
   \<and> (connect_raises far \<noteq> None \<longrightarrow> fst (is_idle l far) = Returned False)
   \<and> (connect_raises far = None \<and> sendall_raises far = None
        \<and> (\<forall>k<n. continues (recvs far) 0 [] k) \<and> CHR 0x0A \<notin> set (received (recvs far) 0 n)
        \<and> recvs far n = Inl x \<longrightarrow> fst (is_idle l far) = Returned False)
   \<and> (fst (send l far [''get_property'', ''idle-active'']) = Returned JNull \<longrightarrow>
        fst (is_idle l far) = Returned False)
   \<and> (fst (send l far [''get_property'', ''idle-active'']) = Returned (JObj kvs)
        \<and> map_of kvs ''error'' \<noteq> Some (JStr ''success'') \<longrightarrow>
        fst (is_idle l far) = Returned False)
   \<and> (fst (send l far [''get_property'', ''idle-active'']) = Returned (JObj kvs)
        \<and> map_of kvs ''data'' = None \<longrightarrow>
        fst (is_idle l far) = Returned False)
   \<and> (fst (send l far [''get_property'', ''idle-active'']) = Returned (JObj kvs)
        \<and> map_of kvs ''data'' \<noteq> Some (JBool True) \<longrightarrow>
        fst (is_idle l far) = Returned False)"
proof -
  have t: "fst (is_idle l far) = Returned True \<longleftrightarrow>
      (\<exists>kvs. fst (send l far [''get_property'', ''idle-active'']) = Returned (JObj kvs)
         \<and> map_of kvs ''error'' = Some (JStr ''success'')
         \<and> map_of kvs ''data'' = Some (JBool True))"
    by (cases "fst (send_body l far)") (simp_all add: fst_is_idle get_property_result_True)
  have null: "fst (send_body l far) = Returned JNull \<Longrightarrow> fst (is_idle l far) = Returned False"
    by (simp add: fst_is_idle get_property_result_def truthy_def)
  have f1: "connect_raises far \<noteq> None \<longrightarrow> fst (is_idle l far) = Returned False"
    by (auto simp add: send_body_connect intro!: null)
  have f2: "connect_raises far = None \<and> sendall_raises far = None
        \<and> (\<forall>k<n. continues (recvs far) 0 [] k) \<and> CHR 0x0A \<notin> set (received (recvs far) 0 n)
        \<and> recvs far n = Inl x \<longrightarrow> fst (is_idle l far) = Returned False"
  proof (intro impI, elim conjE)
    assume a: "connect_raises far = None" "sendall_raises far = None"
      and b: "\<forall>k<n. continues (recvs far) 0 [] k" "CHR 0x0A \<notin> set (received (recvs far) 0 n)"
        "recvs far n = Inl x"
    from recv_exception [of n "recvs far" x, OF b] show "fst (is_idle l far) = Returned False"
      by (intro null) (simp add: send_body_recv [OF a])
  qed
  have f3: "fst (send l far [''get_property'', ''idle-active'']) = Returned JNull \<longrightarrow>
        fst (is_idle l far) = Returned False"
    by (simp add: null)
  have obj: "fst (send_body l far) = Returned (JObj kvs) \<Longrightarrow>
      fst (is_idle l far) = Returned (map_of kvs ''error'' = Some (JStr ''success'')
         \<and> map_of kvs ''data'' = Some (JBool True))"
    by (simp add: fst_is_idle get_property_result_JObj dict_get_def split: option.splits)
  from t f1 f2 f3 obj show ?thesis by auto
qed

theorem is_idle_fails_closed_witness:
  "fst (send reply_lib (replying idle_reply) [''get_property'', ''idle-active'']) =
      Returned (JObj [(''data'', JBool True), (''error'', JStr ''success'')])
   \<and> fst (is_idle reply_lib (replying idle_reply)) = Returned True
   \<and> fst (send reply_lib (replying busy_reply) [''get_property'', ''idle-active'']) =
      Returned (JObj [(''data'', JBool False), (''error'', JStr ''success'')])
   \<and> fst (is_idle reply_lib (replying busy_reply)) = Returned False
   \<and> fst (send reply_lib (replying success_reply) [''get_property'', ''idle-active'']) =
      Returned (JObj [(''error'', JStr ''success'')])
   \<and> fst (is_idle reply_lib (replying success_reply)) = Returned False
   \<and> connect_raises refusing = Some ConnectionRefusedError
   \<and> fst (is_idle reply_lib refusing) = Returned False"
  using is_idle_fails_closed [of reply_lib "replying idle_reply" 0 TimeoutError
      "[(''data'', JBool True), (''error'', JStr ''success'')]"]
    is_idle_fails_closed [of reply_lib "replying busy_reply" 0 TimeoutError
      "[(''data'', JBool False), (''error'', JStr ''success'')]"]
    is_idle_fails_closed [of reply_lib "replying success_reply" 0 TimeoutError
      "[(''error'', JStr ''success'')]"]
    is_idle_fails_closed [of reply_lib refusing 0 TimeoutError "[]"]
  by (simp add: send_body_replying)


section \<open>The keycode decoder\<close>

lemma track_shift_simps [simp]:
  "track_shift sh [] = sh"
  "track_shift sh (ev # evs) =
     track_shift (if is_shift_key ev then keystate ev = key_down \<or> keystate ev = key_hold else sh) evs"
  by (simp_all add: track_shift_def)

lemma line_text_Nil [simp]: "line_text sh [] = []"
  by (simp add: line_text_def)

lemma line_text_Cons:
  "line_text sh (ev # evs) = key_char sh ev @ line_text (track_shift sh [ev]) evs"
proof -
  have "[0..<length (ev # evs)] = 0 # map Suc [0..<length evs]"
    by (simp add: upt_conv_Cons map_Suc_upt del: upt_Suc)
  then show ?thesis
    by (simp add: line_text_def comp_def)
qed

lemma read_step_other:
  "\<not> enter_down ev \<Longrightarrow>
   read_step ev (buf, sh) = ((buf @ key_char sh ev, track_shift sh [ev]), None)"
  by (auto simp add: read_step_def key_char_def is_shift_key_def enter_down_def Let_def
        split: option.splits)

lemma read_step_enter:
  "enter_down ev \<Longrightarrow>
   read_step ev (buf, sh) = (([], sh), if strip buf = [] then None else Some (strip buf))"
  by (simp add: read_step_def enter_down_def Let_def KEY_ENTER_def KEY_LEFTSHIFT_def
        KEY_RIGHTSHIFT_def)

lemma read_loop_no_enter:
  "\<forall>ev \<in> set evs. \<not> enter_down ev \<Longrightarrow>
   read_loop evs (buf, sh) = ((buf @ line_text sh evs, track_shift sh evs), [])"
proof (induction evs arbitrary: buf sh)
  case Nil
  then show ?case by simp
next
  case (Cons ev evs)
  then have ev: "\<not> enter_down ev" and rest: "\<forall>ev \<in> set evs. \<not> enter_down ev" by simp_all
  show ?case
    by (simp add: read_step_other [OF ev] Cons.IH [OF rest] line_text_Cons Let_def)
qed

lemma read_loop_append:
  "read_loop (xs @ ys) st =
     (fst (read_loop ys (fst (read_loop xs st))),
      snd (read_loop xs st) @ snd (read_loop ys (fst (read_loop xs st))))"
  by (induction xs arbitrary: st) (simp_all add: Let_def)

text \<open>
  C6. For every finite sequence of events without an Enter key-down, followed by an Enter
  key-down, \<open>_read_loop\<close> (started with an empty buffer, in any shift state) hands the
  callback exactly one text, the trimmed line of the specification: the characters of
  the key-downs of table keys, each shifted exactly when the tracked shift state was set
  at its event; when that trimmed line is empty it hands over nothing; in both cases the
  buffer is empty afterwards. A key-down of a key absent from the table, and any key-up
  or hold of a key other than shift, leave buffer and shift state as they were, and a
  shift event changes no buffer and emits nothing.
\<close>

theorem decoder_emits_line:
  assumes "\<forall>ev \<in> set evs. \<not> enter_down ev" and "enter_down ent"
  shows "read_loop (evs @ [ent]) ([], sh) =
           (([], track_shift sh evs),
            if strip (line_text sh evs) = [] then [] else [strip (line_text sh evs)])
    \<and> (\<forall>ev st. ev_type ev = EV_KEY \<and> \<not> is_shift_key ev \<and> keystate ev = key_down
          \<and> scancode ev \<noteq> KEY_ENTER \<and> map_of KEYMAP (scancode ev) = None \<longrightarrow>
          read_step ev st = (st, None))
    \<and> (\<forall>ev st. \<not> is_shift_key ev \<and> keystate ev \<noteq> key_down \<longrightarrow> read_step ev st = (st, None))
    \<and> (\<forall>ev buf s. is_shift_key ev \<longrightarrow> fst (fst (read_step ev (buf, s))) = buf
          \<and> snd (read_step ev (buf, s)) = None)"
proof -
  have "read_loop (evs @ [ent]) ([], sh) =
           (([], track_shift sh evs),
            if strip (line_text sh evs) = [] then [] else [strip (line_text sh evs)])"
    by (simp add: read_loop_append read_loop_no_enter [OF assms(1)] read_step_enter [OF assms(2)]
          Let_def)
  moreover have "\<forall>ev st. ev_type ev = EV_KEY \<and> \<not> is_shift_key ev \<and> keystate ev = key_down
          \<and> scancode ev \<noteq> KEY_ENTER \<and> map_of KEYMAP (scancode ev) = None \<longrightarrow>
          read_step ev st = (st, None)"
    by (auto simp add: read_step_def is_shift_key_def Let_def)
  moreover have "\<forall>ev st. \<not> is_shift_key ev \<and> keystate ev \<noteq> key_down \<longrightarrow> read_step ev st = (st, None)"
    by (auto simp add: read_step_def is_shift_key_def Let_def)
  moreover have "\<forall>ev buf s. is_shift_key ev \<longrightarrow> fst (fst (read_step ev (buf, s))) = buf
          \<and> snd (read_step ev (buf, s)) = None"
    by (auto simp add: read_step_def is_shift_key_def Let_def)
  ultimately show ?thesis by blast
qed

lemmas decoder_eval =
  read_step_def key_def example_scan_def enter_down_def is_shift_key_def EV_KEY_def KEY_ENTER_def
  KEY_LEFTSHIFT_def KEY_RIGHTSHIFT_def KEYMAP_def strip_def isspace_def Let_def

lemma example_scan_no_enter: "list_all (\<lambda>ev. \<not> enter_down ev) example_scan"
  by (simp add: decoder_eval)

lemma example_scan_decoded:
  "read_loop (example_scan @ [key KEY_ENTER key_down]) ([], False) = (([], False), [''Ba''])"
  by (simp add: decoder_eval)

lemma blank_scan_decoded:
  "read_loop ([key 57 key_down] @ [key KEY_ENTER key_down]) ([], False) = (([], False), [])"
  by (simp add: decoder_eval)

theorem decoder_emits_line_witness:
  "list_all (\<lambda>ev. \<not> enter_down ev) example_scan
   \<and> enter_down (key KEY_ENTER key_down)
   \<and> read_loop (example_scan @ [key KEY_ENTER key_down]) ([], False) = (([], False), [''Ba''])
   \<and> strip (line_text False example_scan) = ''Ba''
   \<and> read_loop ([key 57 key_down] @ [key KEY_ENTER key_down]) ([], False) = (([], False), [])
   \<and> strip (line_text False [key 57 key_down]) = []"
proof -
  have ent: "enter_down (key KEY_ENTER key_down)"
    by (simp add: enter_down_def key_def)
  have a: "\<forall>ev \<in> set example_scan. \<not> enter_down ev"
    using example_scan_no_enter by (simp add: list_all_iff)
  have b: "\<forall>ev \<in> set [key 57 key_down]. \<not> enter_down ev"
    by (simp add: decoder_eval)
  from decoder_emits_line [OF a ent, of False] example_scan_decoded
  have 1: "strip (line_text False example_scan) = ''Ba''"
    by (auto split: if_splits)
  from decoder_emits_line [OF b ent, of False] blank_scan_decoded
  have 2: "strip (line_text False [key 57 key_down]) = []"
    by (auto split: if_splits)
  from 1 2 ent example_scan_no_enter example_scan_decoded blank_scan_decoded
  show ?thesis by simp
qed

end
